theory Spec2Isabelle
  imports Complex_Main
begin

section \<open>Arrays\<close>

text \<open>
  A numpy vector is a list of reals, a 2-D array is the list of its rows, a 3-D array
  the list of its 2-D slices along axis 0. Floating-point numbers are idealised as
  reals; the properties below are about which entries are copied, zero, one, or combined
  by a single addition, subtraction or multiplication. An array with no rows does not
  carry its column count in this representation.
\<close>

type_synonym vec = "real list"
type_synonym matrix = "real list list"
type_synonym array3 = "real list list list"

datatype py_error = AssertionError | ValueError | IndexError | AttributeError | LinAlgError

text \<open>\<^verbatim>\<open>np.zeros((r, c))\<close> and \<^verbatim>\<open>np.eye(k)\<close>.\<close>

definition np_zeros :: "nat \<Rightarrow> nat \<Rightarrow> matrix" where
  "np_zeros r c = replicate r (replicate c 0)"

definition np_eye :: "nat \<Rightarrow> matrix" where
  "np_eye k = map (\<lambda>i. map (\<lambda>j. if i = j then 1 else 0) [0..<k]) [0..<k]"

text \<open>\<^verbatim>\<open>M[:, a:b]\<close> for \<open>0 \<le> a \<le> b\<close>: a slice never raises, it is cut at the array's width.\<close>

definition slice_cols :: "matrix \<Rightarrow> nat \<Rightarrow> nat \<Rightarrow> matrix" where
  "slice_cols M a b = map (\<lambda>r. take (b - a) (drop a r)) M"

text \<open>
  \<^verbatim>\<open>np.concatenate(parts, axis=1)\<close> of three arrays with the same number of rows, and
  \<^verbatim>\<open>np.concatenate(parts, axis=0)\<close>, which raises ValueError unless all rows have one width.
\<close>

definition concatenate1 :: "matrix \<Rightarrow> matrix \<Rightarrow> matrix \<Rightarrow> matrix" where
  "concatenate1 X Y Z = map2 (@) X (map2 (@) Y Z)"

definition same_width :: "matrix \<Rightarrow> bool" where
  "same_width M = (case M of [] \<Rightarrow> True | r # rs \<Rightarrow> list_all (\<lambda>r'. length r' = length r) rs)"

definition concatenate0 :: "matrix list \<Rightarrow> py_error + matrix" where
  "concatenate0 Ms = (let M = concat Ms in if same_width M then Inr M else Inl ValueError)"

section \<open>Bilinear EDMD: the fitted model\<close>

text \<open>
  The standardizer and the regression optimizers are external collaborators. A
  standardizer is given by its two transforms; an optimizer by the function from the
  regression data \<open>(X, y)\<close> to the coefficient rows that \<^verbatim>\<open>coef_\<close> holds after
  \<^verbatim>\<open>fit(X, y)\<close>. \<open>edmd_base_lift\<close> is the \<^verbatim>\<open>lift\<close> of the base class, the plain
  (non-bilinear) lift of one trajectory.
\<close>

record standardizer =
  transform :: "matrix \<Rightarrow> matrix"
  inverse_transform :: "matrix \<Rightarrow> matrix"

record bilinear_edmd =
  edmd_n :: nat
  edmd_m :: nat
  edmd_n_lift :: nat
  edmd_n_traj :: nat
  edmd_basis :: "matrix \<Rightarrow> matrix"
  edmd_base_lift :: "matrix \<Rightarrow> matrix \<Rightarrow> matrix"
  edmd_optimizer :: "matrix \<Rightarrow> matrix \<Rightarrow> matrix"
  edmd_cv :: "(matrix \<Rightarrow> matrix \<Rightarrow> matrix) option"
  edmd_standardizer :: "standardizer option"
  edmd_A :: matrix
  edmd_B :: "matrix list"
  edmd_C :: matrix
  basis_reduced :: "(matrix \<Rightarrow> py_error + matrix) option"
  n_lift_reduced :: "nat option"
  obs_in_use :: "nat list option"

text \<open>The constructor: \<open>B\<close> starts empty, the reduced view is unset.\<close>

definition init_edmd ::
  "nat \<Rightarrow> nat \<Rightarrow> (matrix \<Rightarrow> matrix) \<Rightarrow> (matrix \<Rightarrow> matrix \<Rightarrow> matrix) \<Rightarrow> nat \<Rightarrow> nat \<Rightarrow>
   (matrix \<Rightarrow> matrix \<Rightarrow> matrix) \<Rightarrow> (matrix \<Rightarrow> matrix \<Rightarrow> matrix) option \<Rightarrow>
   standardizer option \<Rightarrow> matrix \<Rightarrow> bilinear_edmd" where
  "init_edmd n m basis base_lift n_lift n_traj optimizer cv stdz C =
     \<lparr> edmd_n = n, edmd_m = m, edmd_n_lift = n_lift, edmd_n_traj = n_traj,
       edmd_basis = basis, edmd_base_lift = base_lift, edmd_optimizer = optimizer,
       edmd_cv = cv, edmd_standardizer = stdz, edmd_A = [], edmd_B = [], edmd_C = C,
       basis_reduced = None, n_lift_reduced = None, obs_in_use = None \<rparr>"

subsection \<open>fit\<close>

text \<open>The regression step: the cross-validated optimizer when \<open>cv\<close> is set (an assertion
  fails when none is configured), the plain optimizer otherwise.\<close>

definition fit_coefs :: "bilinear_edmd \<Rightarrow> matrix \<Rightarrow> matrix \<Rightarrow> bool \<Rightarrow> py_error + matrix" where
  "fit_coefs s X y cv =
     (if cv then (case edmd_cv s of None \<Rightarrow> Inl AssertionError | Some f \<Rightarrow> Inr (f X y))
      else Inr (edmd_optimizer s X y))"

text \<open>The coefficients the model blocks are cut from.\<close>

definition std_coefs :: "bilinear_edmd \<Rightarrow> matrix \<Rightarrow> matrix" where
  "std_coefs s mdl_coefs =
     (case edmd_standardizer s of None \<Rightarrow> mdl_coefs | Some st \<Rightarrow> transform st mdl_coefs)"

text \<open>\<open>kin_dyn\<close>: \<open>[0 | I | 0]\<close> with \<open>h = int(n/2)\<close> rows and the identity at column
  \<open>h + c\<close>, where \<open>c = int(first_obs_const)\<close>.\<close>

definition kin_dyn :: "nat \<Rightarrow> nat \<Rightarrow> nat \<Rightarrow> matrix" where
  "kin_dyn n n_lift c =
     concatenate1 (np_zeros (n div 2) (n div 2 + c)) (np_eye (n div 2))
                  (np_zeros (n div 2) (n_lift - n - c))"

text \<open>The loop \<^verbatim>\<open>for ii in range(m): self.B.append(...)\<close> of the override branch; an
  append whose concatenation raises ends the call.\<close>

fun append_B_kin :: "nat \<Rightarrow> nat \<Rightarrow> nat \<Rightarrow> matrix \<Rightarrow> matrix list \<Rightarrow> nat list \<Rightarrow> py_error + matrix list" where
  "append_B_kin n n_lift c coefs B [] = Inr B"
| "append_B_kin n n_lift c coefs B (ii # iis) =
     (case concatenate0 [np_zeros (n div 2 + c) n_lift,
                         slice_cols coefs (n_lift * (ii + 1)) (n_lift * (ii + 2))] of
        Inl e \<Rightarrow> Inl e
      | Inr Bi \<Rightarrow> append_B_kin n n_lift c coefs (B @ [Bi]) iis)"

definition fit ::
  "bilinear_edmd \<Rightarrow> matrix \<Rightarrow> matrix \<Rightarrow> bool \<Rightarrow> bool \<Rightarrow> bool \<Rightarrow> py_error + bilinear_edmd" where
  "fit s X y cv override_kinematics first_obs_const =
     (let n = edmd_n s; n_lift = edmd_n_lift s; c = of_bool first_obs_const;
          y' = (if override_kinematics then map (drop (n div 2 + c)) y else y)
      in case fit_coefs s X y' cv of
           Inl e \<Rightarrow> Inl e
         | Inr mdl_coefs \<Rightarrow>
             let coefs = std_coefs s mdl_coefs in
             if override_kinematics then
               if n_lift < n + c then Inl ValueError
               else
                 case concatenate0
                        ((if first_obs_const then [np_zeros 1 n_lift] else []) @
                         [kin_dyn n n_lift c, slice_cols coefs 0 n_lift]) of
                   Inl e \<Rightarrow> Inl e
                 | Inr A' \<Rightarrow>
                     (case append_B_kin n n_lift c coefs (edmd_B s) [0..<edmd_m s] of
                        Inl e \<Rightarrow> Inl e
                      | Inr B' \<Rightarrow> Inr (s\<lparr>edmd_A := A', edmd_B := B'\<rparr>))
             else
               Inr (s\<lparr>edmd_A := slice_cols coefs 0 n_lift,
                      edmd_B := edmd_B s @
                        map (\<lambda>ii. slice_cols coefs (n_lift * (ii + 1)) (n_lift * (ii + 2)))
                            [0..<edmd_m s]\<rparr>))"

subsection \<open>lift\<close>

text \<open>
  The plain lift of the first \<open>n_traj\<close> trajectories,
  \<^verbatim>\<open>[super().lift(x[ii, :-1, :], u[ii, :, :]) for ii in range(self.n_traj)]\<close>; indexing
  beyond the trajectories of \<open>x\<close> or \<open>u\<close> raises IndexError.
\<close>

definition plain_lift :: "bilinear_edmd \<Rightarrow> array3 \<Rightarrow> array3 \<Rightarrow> py_error + array3" where
  "plain_lift s x u =
     (if edmd_n_traj s \<le> length x \<and> edmd_n_traj s \<le> length u
      then Inr (map (\<lambda>ii. edmd_base_lift s (butlast (x ! ii)) (u ! ii)) [0..<edmd_n_traj s])
      else Inl IndexError)"

text \<open>
  The shape of a 3-D array given as nested lists: \<open>None\<close> when the lists are ragged, and
  also when axis 0 or axis 1 is empty, where the nested lists do not record the shape.
\<close>

definition shape3 :: "array3 \<Rightarrow> (nat \<times> nat \<times> nat) option" where
  "shape3 z =
     (case z of
        [] \<Rightarrow> None
      | t # _ \<Rightarrow>
          (case t of
             [] \<Rightarrow> None
           | r # _ \<Rightarrow>
               if list_all (\<lambda>t'. length t' = length t \<and> list_all (\<lambda>r'. length r' = length r) t') z
               then Some (length z, length t, length r) else None))"

text \<open>
  One round of the loop of \<open>lift\<close>:
  \<^verbatim>\<open>np.concatenate((z_bilinear, np.multiply(z, np.tile(u[:,:,ii:ii+1], (1,1,z.shape[2])))), axis=2)\<close>.
\<close>

definition lift_round :: "array3 \<Rightarrow> array3 \<Rightarrow> array3 \<Rightarrow> nat \<Rightarrow> array3" where
  "lift_round z u z_bilinear ii =
     map2 (map2 (@)) z_bilinear (map2 (map2 (\<lambda>zr ur. map (\<lambda>v. v * ur ! ii) zr)) z u)"

text \<open>
  \<open>lift\<close>. The elementwise product needs \<open>z\<close> and the control array to agree on the first
  two axes, and the control array to have a channel \<open>ii\<close> for every \<open>ii < m\<close>; otherwise
  the model returns ValueError (numpy raises there, except where an axis of length one
  would be broadcast, which the model leaves out).
\<close>

definition lift :: "bilinear_edmd \<Rightarrow> array3 \<Rightarrow> array3 \<Rightarrow> py_error + array3" where
  "lift s x u =
     (case plain_lift s x u of
        Inl e \<Rightarrow> Inl e
      | Inr z \<Rightarrow>
          (case (shape3 z, shape3 u) of
             (Some (K, T, nl), Some (K', T', mu)) \<Rightarrow>
               if K' = K \<and> T' = T \<and> edmd_m s \<le> mu
               then Inr (foldl (lift_round z u) z [0..<edmd_m s])
               else Inl ValueError
           | _ \<Rightarrow> Inl ValueError))"

subsection \<open>reduce\_mdl\<close>

text \<open>\<^verbatim>\<open>np.nonzero(M)[1]\<close>: the column indices of the nonzero entries, row by row;
  \<^verbatim>\<open>np.unique\<close>: the sorted distinct values.\<close>

definition nonzero_cols :: "matrix \<Rightarrow> nat list" where
  "nonzero_cols M = concat (map (\<lambda>r. filter (\<lambda>j. r ! j \<noteq> 0) [0..<length r]) M)"

definition np_unique :: "nat list \<Rightarrow> nat list" where
  "np_unique xs = sort (remdups xs)"

text \<open>\<^verbatim>\<open>M[idx, :]\<close> and \<^verbatim>\<open>M[:, idx]\<close> with a list of indices: an index out of range
  raises IndexError.\<close>

definition take_rows :: "matrix \<Rightarrow> nat list \<Rightarrow> py_error + matrix" where
  "take_rows M idx =
     (if list_all (\<lambda>i. i < length M) idx then Inr (map (\<lambda>i. M ! i) idx) else Inl IndexError)"

definition take_cols :: "matrix \<Rightarrow> nat list \<Rightarrow> py_error + matrix" where
  "take_cols M idx =
     (if list_all (\<lambda>r. list_all (\<lambda>j. j < length r) idx) M
      then Inr (map (\<lambda>r. map (\<lambda>j. r ! j) idx) M) else Inl IndexError)"

text \<open>The inner loop
  \<^verbatim>\<open>for ii in range(m): in_use = np.unique(np.concatenate((in_use, np.nonzero(B[ii][in_use,:])[1])))\<close>.\<close>

fun expand_B :: "matrix list \<Rightarrow> nat list \<Rightarrow> nat list \<Rightarrow> py_error + nat list" where
  "expand_B B in_use [] = Inr in_use"
| "expand_B B in_use (ii # iis) =
     (if ii < length B then
        (case take_rows (B ! ii) in_use of
           Inl e \<Rightarrow> Inl e
         | Inr R \<Rightarrow> expand_B B (np_unique (in_use @ nonzero_cols R)) iis)
      else Inl IndexError)"

text \<open>The body of the while loop: \<^verbatim>\<open>in_use = np.unique(np.nonzero(self.A[in_use,:])[1])\<close>,
  then the inner loop over the \<open>B\<^sub>i\<close>.\<close>

definition reduce_step :: "matrix \<Rightarrow> matrix list \<Rightarrow> nat \<Rightarrow> nat list \<Rightarrow> py_error + nat list" where
  "reduce_step A B m in_use =
     (case take_rows A in_use of
        Inl e \<Rightarrow> Inl e
      | Inr R \<Rightarrow> expand_B B (np_unique (nonzero_cols R)) [0..<m])"

text \<open>\<^verbatim>\<open>while n_obs_used < in_use.size: n_obs_used = in_use.size; ...\<close>\<close>

function reduce_while ::
  "matrix \<Rightarrow> matrix list \<Rightarrow> nat \<Rightarrow> nat \<Rightarrow> nat list \<Rightarrow> py_error + nat list" where
  "reduce_while A B m n_obs_used in_use =
     (if n_obs_used < length in_use then
        (case reduce_step A B m in_use of
           Inl e \<Rightarrow> Inl e
         | Inr in_use' \<Rightarrow> reduce_while A B m (length in_use) in_use')
      else Inr in_use)"
  by pat_completeness auto


text \<open>
  The loop ends: every pass replaces \<open>in_use\<close> by a list of distinct column indices of
  \<open>A\<close> and the \<open>B\<^sub>i\<close>, so its size is bounded by their widest row, while
  \<open>n_obs_used\<close> grows strictly from pass to pass.
\<close>

lemma nonzero_cols_bound: "j \<in> set (nonzero_cols M) \<Longrightarrow> \<exists>r \<in> set M. j < length r"
  by (auto simp: nonzero_cols_def)

lemma take_rows_subset: "take_rows M idx = Inr R \<Longrightarrow> set R \<subseteq> set M"
  by (auto simp: take_rows_def list_all_iff split: if_splits)

definition width_bound :: "matrix \<Rightarrow> matrix list \<Rightarrow> nat" where
  "width_bound A B = Max (insert 0 (length ` (set A \<union> (\<Union>M \<in> set B. set M))))"

lemma width_bound_A: "r \<in> set A \<Longrightarrow> length r \<le> width_bound A B"
  unfolding width_bound_def by (intro Max_ge) auto

lemma width_bound_B: "M \<in> set B \<Longrightarrow> r \<in> set M \<Longrightarrow> length r \<le> width_bound A B"
  unfolding width_bound_def by (intro Max_ge) auto

lemma set_np_unique: "set (np_unique xs) = set xs"
  by (simp add: np_unique_def)

lemma distinct_np_unique: "distinct (np_unique xs)"
  by (simp add: np_unique_def)

lemma expand_B_bound:
  "expand_B B iu iis = Inr iu' \<Longrightarrow> distinct iu \<Longrightarrow> \<forall>j \<in> set iu. j < width_bound A B \<Longrightarrow>
   distinct iu' \<and> (\<forall>j \<in> set iu'. j < width_bound A B)"
proof (induction iis arbitrary: iu)
  case Nil
  then show ?case by simp
next
  case (Cons ii iis)
  from Cons.prems(1) obtain R where ii: "ii < length B"
    and R: "take_rows (B ! ii) iu = Inr R"
    and rec: "expand_B B (np_unique (iu @ nonzero_cols R)) iis = Inr iu'"
    by (auto split: if_splits sum.splits)
  have "\<forall>j \<in> set (nonzero_cols R). j < width_bound A B"
  proof
    fix j assume "j \<in> set (nonzero_cols R)"
    then obtain r where r: "r \<in> set R" "j < length r" using nonzero_cols_bound by blast
    with take_rows_subset[OF R] have "r \<in> set (B ! ii)" by blast
    with ii have "length r \<le> width_bound A B" by (intro width_bound_B[of "B ! ii"]) auto
    with r show "j < width_bound A B" by simp
  qed
  with Cons.prems(3) have "\<forall>j \<in> set (np_unique (iu @ nonzero_cols R)). j < width_bound A B"
    by (auto simp: set_np_unique)
  from Cons.IH[OF rec distinct_np_unique this] show ?case .
qed

lemma reduce_step_bound:
  assumes "reduce_step A B m iu = Inr iu'"
  shows "length iu' \<le> width_bound A B"
proof -
  from assms obtain R where R: "take_rows A iu = Inr R"
    and ex: "expand_B B (np_unique (nonzero_cols R)) [0..<m] = Inr iu'"
    by (auto simp: reduce_step_def split: sum.splits)
  have "\<forall>j \<in> set (np_unique (nonzero_cols R)). j < width_bound A B"
  proof
    fix j assume "j \<in> set (np_unique (nonzero_cols R))"
    then obtain r where r: "r \<in> set R" "j < length r"
      using nonzero_cols_bound by (auto simp: set_np_unique)
    with take_rows_subset[OF R] have "length r \<le> width_bound A B"
      by (intro width_bound_A) auto
    with r show "j < width_bound A B" by simp
  qed
  from expand_B_bound[OF ex distinct_np_unique this]
  have d: "distinct iu'" and b: "set iu' \<subseteq> {..<width_bound A B}" by auto
  have "length iu' = card (set iu')" using d by (simp add: distinct_card)
  also have "\<dots> \<le> card {..<width_bound A B}" using b by (intro card_mono) auto
  finally show ?thesis by simp
qed

termination reduce_while
proof (relation "measure (\<lambda>(A, B, m, k, iu).
          (if length iu \<le> width_bound A B then 0 else width_bound A B + 2) +
          (width_bound A B + 1 - k))")
  show "wf (measure (\<lambda>(A, B, m, k, iu).
          (if length iu \<le> width_bound A B then 0 else width_bound A B + 2) +
          (width_bound A B + 1 - k)))" by simp
next
  fix A :: matrix and B :: "matrix list" and m n_obs_used :: nat and in_use x2 :: "nat list"
  assume lt: "n_obs_used < length in_use" and st: "reduce_step A B m in_use = Inr x2"
  from reduce_step_bound[OF st] have "length x2 \<le> width_bound A B" .
  with lt show "((A, B, m, length in_use, x2), (A, B, m, n_obs_used, in_use))
        \<in> measure (\<lambda>(A, B, m, k, iu).
          (if length iu \<le> width_bound A B then 0 else width_bound A B + 2) +
          (width_bound A B + 1 - k))"
    by (auto split: if_splits)
qed


text \<open>The loop \<^verbatim>\<open>for ii in range(m): B[ii] = B[ii][in_use, :]; B[ii] = B[ii][:, in_use]\<close>.\<close>

fun restrict_B :: "matrix list \<Rightarrow> nat list \<Rightarrow> nat list \<Rightarrow> py_error + matrix list" where
  "restrict_B B in_use [] = Inr B"
| "restrict_B B in_use (ii # iis) =
     (if ii < length B then
        (case take_rows (B ! ii) in_use of
           Inl e \<Rightarrow> Inl e
         | Inr B1 \<Rightarrow>
             (case take_cols B1 in_use of
                Inl e \<Rightarrow> Inl e
              | Inr B2 \<Rightarrow> restrict_B (B[ii := B2]) in_use iis))
      else Inl IndexError)"

definition reduce_mdl :: "bilinear_edmd \<Rightarrow> py_error + bilinear_edmd" where
  "reduce_mdl s =
     (case reduce_while (edmd_A s) (edmd_B s) (edmd_m s) 0 (np_unique (nonzero_cols (edmd_C s))) of
        Inl e \<Rightarrow> Inl e
      | Inr in_use \<Rightarrow>
          (case take_rows (edmd_A s) in_use of
             Inl e \<Rightarrow> Inl e
           | Inr A1 \<Rightarrow>
               (case take_cols A1 in_use of
                  Inl e \<Rightarrow> Inl e
                | Inr A2 \<Rightarrow>
                    (case restrict_B (edmd_B s) in_use [0..<edmd_m s] of
                       Inl e \<Rightarrow> Inl e
                     | Inr B' \<Rightarrow>
                         (case take_cols (edmd_C s) in_use of
                            Inl e \<Rightarrow> Inl e
                          | Inr C' \<Rightarrow>
                              Inr (s\<lparr>edmd_A := A2, edmd_B := B', edmd_C := C',
                                     basis_reduced := Some (\<lambda>x. take_cols (edmd_basis s x) in_use),
                                     n_lift_reduced := Some (length in_use),
                                     obs_in_use := Some in_use\<rparr>))))))"

section \<open>Nonlinear MPC controller\<close>

subsection \<open>Errors and array operations\<close>

text \<open>Sequencing of steps that may raise: the first error ends the computation.\<close>

definition err_bind :: "py_error + 'a \<Rightarrow> ('a \<Rightarrow> py_error + 'b) \<Rightarrow> py_error + 'b" where
  "err_bind x f = (case x of Inl e \<Rightarrow> Inl e | Inr v \<Rightarrow> f v)"

fun err_all :: "(py_error + 'a) list \<Rightarrow> py_error + 'a list" where
  "err_all [] = Inr []"
| "err_all (x # xs) = err_bind x (\<lambda>v. err_bind (err_all xs) (\<lambda>vs. Inr (v # vs)))"

text \<open>
  \<open>a - b\<close> on vectors, with numpy's broadcasting of a vector of length one; other
  length mismatches raise ValueError. \<^verbatim>\<open>np.tile(v, k)\<close>. \<open>M @ v\<close>. Column \<open>i\<close> of a 2-D
  array, \<^verbatim>\<open>M[:, i]\<close> (IndexError is decided by \<open>has_col\<close>).
\<close>

definition vsub :: "vec \<Rightarrow> vec \<Rightarrow> py_error + vec" where
  "vsub a b =
     (if length a = length b then Inr (map2 (-) a b)
      else if length a = 1 then Inr (map (\<lambda>y. hd a - y) b)
      else if length b = 1 then Inr (map (\<lambda>x. x - hd b) a)
      else Inl ValueError)"

definition tile :: "vec \<Rightarrow> nat \<Rightarrow> vec" where
  "tile v k = concat (replicate k v)"

definition dot :: "vec \<Rightarrow> vec \<Rightarrow> real" where
  "dot a b = sum_list (map2 (*) a b)"

definition mat_vec :: "matrix \<Rightarrow> vec \<Rightarrow> py_error + vec" where
  "mat_vec M v =
     (if list_all (\<lambda>r. length r = length v) M then Inr (map (\<lambda>r. dot r v) M) else Inl ValueError)"

definition col :: "matrix \<Rightarrow> nat \<Rightarrow> vec" where
  "col M i = map (\<lambda>r. r ! i) M"

definition has_col :: "matrix \<Rightarrow> nat \<Rightarrow> bool" where
  "has_col M i = list_all (\<lambda>r. i < length r) M"

text \<open>The width of a 2-D array with at least one row, and its columns in order.\<close>

definition width :: "matrix \<Rightarrow> nat" where
  "width M = (case M of [] \<Rightarrow> 0 | r # _ \<Rightarrow> length r)"

definition np_cols :: "matrix \<Rightarrow> vec list" where
  "np_cols M = map (col M) [0..<width M]"

text \<open>The transpose of an \<open>r \<times> c\<close> array, and \<^verbatim>\<open>xs.reshape(r, c, order='F')\<close>.\<close>

definition np_T :: "nat \<Rightarrow> nat \<Rightarrow> matrix \<Rightarrow> matrix" where
  "np_T r c M = map (\<lambda>j. map (\<lambda>i. M ! i ! j) [0..<r]) [0..<c]"

definition reshape_F :: "nat \<Rightarrow> nat \<Rightarrow> vec \<Rightarrow> matrix" where
  "reshape_F r c xs = map (\<lambda>i. map (\<lambda>j. xs ! (j * r + i)) [0..<c]) [0..<r]"

text \<open>
  \<open>X + Y\<close> on 2-D arrays of one shape. Where the shapes differ the model returns
  ValueError (numpy raises, unless an axis of length one can be broadcast, which the model
  leaves out).
\<close>

definition madd :: "matrix \<Rightarrow> matrix \<Rightarrow> py_error + matrix" where
  "madd X Y =
     (if length X = length Y \<and> list_all2 (\<lambda>a b. length a = length b) X Y
      then Inr (map2 (map2 (+)) X Y) else Inl ValueError)"

text \<open>\<^verbatim>\<open>np.linalg.norm(U - V)\<close> for 2-D arrays of one shape: the Frobenius norm.\<close>

definition norm_diff :: "matrix \<Rightarrow> matrix \<Rightarrow> real" where
  "norm_diff U V = sqrt (sum_list (map (\<lambda>(a, b). (a - b)\<^sup>2) (zip (concat U) (concat V))))"

text \<open>
  The element type of an array, as far as the controller depends on it. An arithmetic
  expression on integer arrays is an integer array, one that involves a float array is a
  float array (\<^verbatim>\<open>np.result_type\<close>). A store into an existing array, \<^verbatim>\<open>a[...] = v\<close>,
  casts the values to the element type of \<open>a\<close>: a float array takes them unchanged, an
  integer array takes them truncated toward zero.
\<close>

datatype np_dtype = int64 | float64

definition result_type :: "np_dtype \<Rightarrow> np_dtype \<Rightarrow> np_dtype" where
  "result_type a b = (if a = int64 \<and> b = int64 then int64 else float64)"

definition trunc_toward_zero :: "real \<Rightarrow> real" where
  "trunc_toward_zero x = (if 0 \<le> x then of_int \<lfloor>x\<rfloor> else of_int \<lceil>x\<rceil>)"

definition astype :: "np_dtype \<Rightarrow> vec \<Rightarrow> vec" where
  "astype d v = (case d of float64 \<Rightarrow> v | int64 \<Rightarrow> map trunc_toward_zero v)"

text \<open>
  \<^verbatim>\<open>data[inds] = vals\<close> with a list of indices: an index out of range raises IndexError;
  the values must be as many as the indices, or a single value that is broadcast. The
  arrays stored into this way are float arrays (the value array is built from columns that
  start or end with \<^verbatim>\<open>np.ones(1)\<close>), so the store keeps the values.
  \<^verbatim>\<open>a[-k:] = v\<close> for an array \<open>a\<close> of element type \<open>d\<close>, and \<^verbatim>\<open>a[-k:]\<close>: the last \<open>k\<close> entries,
  all of them when \<open>k = 0\<close> or \<open>k\<close> exceeds the length.
\<close>

definition assign_at :: "vec \<Rightarrow> nat list \<Rightarrow> vec \<Rightarrow> py_error + vec" where
  "assign_at data inds vals =
     (if length vals = length inds then
        if list_all (\<lambda>i. i < length data) inds
        then Inr (foldl (\<lambda>d (i, v). d[i := v]) data (zip inds vals)) else Inl IndexError
      else if length vals = 1 then
        if list_all (\<lambda>i. i < length data) inds
        then Inr (foldl (\<lambda>d i. d[i := hd vals]) data inds) else Inl IndexError
      else Inl ValueError)"

definition tail_len :: "vec \<Rightarrow> nat \<Rightarrow> nat" where
  "tail_len a k = (if k = 0 then length a else min k (length a))"

definition tail_slice :: "vec \<Rightarrow> nat \<Rightarrow> vec" where
  "tail_slice a k = drop (length a - tail_len a k) a"

definition assign_tail :: "np_dtype \<Rightarrow> vec \<Rightarrow> nat \<Rightarrow> vec \<Rightarrow> py_error + vec" where
  "assign_tail d a k v =
     (if length v = tail_len a k then Inr (take (length a - tail_len a k) a @ astype d v)
      else if length v = 1
      then Inr (take (length a - tail_len a k) a @ replicate (tail_len a k) (hd (astype d v)))
      else Inl ValueError)"

text \<open>
  \<^verbatim>\<open>np.hstack(Ms).flatten(order='F')\<close>: the blocks must be at least one and agree in their
  number of rows; the result lists the columns of the blocks in order.
\<close>

definition hstack_flatten_F :: "matrix list \<Rightarrow> py_error + vec" where
  "hstack_flatten_F Ms =
     (if Ms = [] \<or> \<not> list_all (\<lambda>M. length M = length (hd Ms)) Ms then Inl ValueError
      else Inr (concat (map (\<lambda>M. concat (np_cols M)) Ms)))"

subsection \<open>Dense models of the sparse constructors\<close>

text \<open>
  The sparse matrices of the QP are modelled by their dense contents. \<open>np_hstack\<close> and
  \<open>np_vstack\<close> raise ValueError when the row counts (the widths) disagree. \<open>block_diag\<close>
  places the blocks along the diagonal; \<open>kron\<close> is the Kronecker product.
\<close>

definition np_hstack :: "matrix \<Rightarrow> matrix \<Rightarrow> py_error + matrix" where
  "np_hstack X Y = (if length X = length Y then Inr (map2 (@) X Y) else Inl ValueError)"

definition np_vstack :: "matrix list \<Rightarrow> py_error + matrix" where
  "np_vstack Ms = concatenate0 Ms"

fun block_diag :: "matrix list \<Rightarrow> matrix" where
  "block_diag [] = []"
| "block_diag (M # Ms) =
     map (\<lambda>r. r @ replicate (width (block_diag Ms)) 0) M @
     map (\<lambda>r. replicate (width M) 0 @ r) (block_diag Ms)"

definition kron :: "matrix \<Rightarrow> matrix \<Rightarrow> matrix" where
  "kron X Y = concat (map (\<lambda>rx. map (\<lambda>ry. concat (map (\<lambda>a. map ((*) a) ry) rx)) Y) X)"

definition mneg :: "matrix \<Rightarrow> matrix" where
  "mneg X = map (map uminus) X"

definition mat_mul :: "matrix \<Rightarrow> matrix \<Rightarrow> py_error + matrix" where
  "mat_mul X Y =
     (if list_all (\<lambda>r. length r = length Y) X
      then Inr (map (\<lambda>r. map (\<lambda>c. dot r c) (np_cols Y)) X) else Inl ValueError)"

text \<open>
  The stored values of a matrix in compressed-sparse-column form: the nonzero entries,
  column by column, each column from top to bottom. Entries that are zero in the dense
  blocks the matrix is assembled from are not stored.
\<close>

definition csc_data :: "matrix \<Rightarrow> vec" where
  "csc_data M = concat (map (\<lambda>c. filter (\<lambda>v. v \<noteq> 0) c) (np_cols M))"

subsection \<open>The controller\<close>

text \<open>
  The dynamics object is given by its \<open>get_linearization(z, z_next, u, None)\<close>; the OSQP
  handle by its state \<open>prob\<close>, the function \<open>osqp_setup\<close> that builds it, and the function
  \<open>osqp_solve\<close> that stands for \<^verbatim>\<open>prob.update(q, Ax, l, u)\<close> followed by
  \<^verbatim>\<open>prob.solve()\<close>, returning the solution vector and the handle's new state.
  \<open>elapsed k\<close> is the wall-clock time measured for the \<open>k\<close>-th recorded iteration.
  The arrays \<open>C\<close>, \<open>xmin\<close>, \<open>xmax\<close> and the guess \<open>cur_z\<close> are kept with their element
  types, which decide the element type of the state bounds.
\<close>

record 'p nmpc =
  mpc_nx :: nat
  mpc_nu :: nat
  mpc_N :: nat
  mpc_ns :: nat
  mpc_C :: matrix
  mpc_C_dtype :: np_dtype
  mpc_Q :: matrix
  mpc_QN :: matrix
  mpc_R :: matrix
  mpc_xmin :: vec
  mpc_xmin_dtype :: np_dtype
  mpc_xmax :: vec
  mpc_xmax_dtype :: np_dtype
  mpc_umin :: vec
  mpc_umax :: vec
  mpc_xr :: vec
  terminal_constraint :: bool
  get_linearization :: "vec \<Rightarrow> vec \<Rightarrow> vec \<Rightarrow> matrix \<times> matrix \<times> vec"
  osqp_setup :: "matrix \<Rightarrow> vec \<Rightarrow> matrix \<Rightarrow> vec \<Rightarrow> vec \<Rightarrow> 'p"
  osqp_solve :: "'p \<Rightarrow> vec \<Rightarrow> vec \<Rightarrow> vec \<Rightarrow> vec \<Rightarrow> vec \<times> 'p"
  elapsed :: "nat \<Rightarrow> real"
  prob :: "'p option"
  res_x :: vec
  cur_z :: matrix
  cur_z_dtype :: np_dtype
  cur_u :: matrix
  comp_time :: "real list"
  x_iter :: "matrix list"
  u_iter :: "matrix list"
  osqp_P :: matrix
  osqp_q :: vec
  osqp_A :: matrix
  osqp_l :: vec
  osqp_u :: vec
  osqp_A_data :: "vec option"
  osqp_A_data_A_inds :: "nat list"
  osqp_A_data_B_inds :: "nat list"

subsection \<open>Objective\<close>

text \<open>
  The linear objective \<open>q\<close>, as \<open>construct_objective_\<close> and \<open>update_objective_\<close> both
  compute it: per stage \<open>C\<^sup>T Q (C z\<^sub>t - xr)\<close>, then \<open>C\<^sup>T QN (C z\<^sub>N - xr)\<close>, then \<open>R u\<^sub>t\<close>
  per stage.
\<close>

definition stage_grad :: "matrix \<Rightarrow> matrix \<Rightarrow> vec \<Rightarrow> vec \<Rightarrow> py_error + vec" where
  "stage_grad C Q xr z =
     err_bind (mat_vec C z) (\<lambda>y. err_bind (vsub y xr) (\<lambda>d.
       err_bind (mat_vec Q d) (\<lambda>g. mat_vec (transpose C) g)))"

definition linear_objective :: "'p nmpc \<Rightarrow> matrix \<Rightarrow> matrix \<Rightarrow> py_error + vec" where
  "linear_objective s z_init u_init =
     (if z_init = [] then Inl IndexError
      else err_bind (err_all (map (stage_grad (mpc_C s) (mpc_Q s) (mpc_xr s)) (butlast z_init))) (\<lambda>gs.
           err_bind (stage_grad (mpc_C s) (mpc_QN s) (mpc_xr s) (last z_init)) (\<lambda>gN.
           err_bind (err_all (map (mat_vec (mpc_R s)) u_init)) (\<lambda>rs.
             Inr (concat gs @ gN @ concat rs)))))"

definition update_objective :: "'p nmpc \<Rightarrow> matrix \<Rightarrow> matrix \<Rightarrow> py_error + 'p nmpc" where
  "update_objective s z_init u_init =
     err_bind (linear_objective s z_init u_init) (\<lambda>q. Inr (s\<lparr>osqp_q := q\<rparr>))"

definition construct_objective :: "'p nmpc \<Rightarrow> matrix \<Rightarrow> matrix \<Rightarrow> py_error + 'p nmpc" where
  "construct_objective s z_init u_init =
     err_bind (mat_mul (transpose (mpc_C s)) (mpc_Q s)) (\<lambda>CtQ.
     err_bind (mat_mul CtQ (mpc_C s)) (\<lambda>CtQC.
     err_bind (mat_mul (transpose (mpc_C s)) (mpc_QN s)) (\<lambda>CtQN.
     err_bind (mat_mul CtQN (mpc_C s)) (\<lambda>CtQNC.
     err_bind (linear_objective s z_init u_init) (\<lambda>q.
       Inr (s\<lparr>osqp_P := block_diag [kron (np_eye (mpc_N s)) CtQC, CtQNC,
                                     kron (np_eye (mpc_N s)) (mpc_R s)],
              osqp_q := q\<rparr>))))))"

subsection \<open>Constraint matrix\<close>

text \<open>\<open>construct_constraint_matrix_\<close>: the equality block \<open>[-I + A_dyn | Bu]\<close>, the input
  bounds \<open>[0 | I]\<close> and the state bounds \<open>[kron(I, C) | 0]\<close>, stacked.\<close>

definition construct_constraint_matrix ::
  "'p nmpc \<Rightarrow> matrix list \<Rightarrow> matrix list \<Rightarrow> py_error + 'p nmpc" where
  "construct_constraint_matrix s A_lst B_lst =
     (let nx = mpc_nx s; nu = mpc_nu s; N = mpc_N s; ns = mpc_ns s in
      err_bind (np_hstack (block_diag A_lst) (np_zeros (N * nx) nx)) (\<lambda>A_low.
      err_bind (np_vstack [np_zeros nx ((N + 1) * nx), A_low]) (\<lambda>A_dyn.
      err_bind (madd (mneg (np_eye ((N + 1) * nx))) A_dyn) (\<lambda>Ax.
      err_bind (np_vstack [np_zeros nx (N * nu), block_diag B_lst]) (\<lambda>Bu.
      err_bind (np_hstack Ax Bu) (\<lambda>Aeq.
      err_bind (np_hstack (np_zeros (N * nu) ((N + 1) * nx)) (np_eye (N * nu))) (\<lambda>Aineq_u.
      err_bind (np_hstack (kron (np_eye (N + 1)) (mpc_C s)) (np_zeros ((N + 1) * ns) (N * nu))) (\<lambda>Aineq_x.
      err_bind (np_vstack [Aeq, Aineq_u, Aineq_x]) (\<lambda>A.
        Inr (s\<lparr>osqp_A := A\<rparr>))))))))))"

subsection \<open>Constraint vectors\<close>

text \<open>
  The element types of \<open>lineq_x\<close> and \<open>uineq_x\<close>, the results of
  \<^verbatim>\<open>np.tile(xmin, N + 1) - (C @ z_init.T).flatten(order='F')\<close> and of the same expression
  with \<open>xmax\<close>, for a guess \<open>z_init\<close> of element type \<open>zd\<close>.
\<close>

definition lineq_x_dtype :: "'p nmpc \<Rightarrow> np_dtype \<Rightarrow> np_dtype" where
  "lineq_x_dtype s zd = result_type (mpc_xmin_dtype s) (result_type (mpc_C_dtype s) zd)"

definition uineq_x_dtype :: "'p nmpc \<Rightarrow> np_dtype \<Rightarrow> np_dtype" where
  "uineq_x_dtype s zd = result_type (mpc_xmax_dtype s) (result_type (mpc_C_dtype s) zd)"

text \<open>
  \<open>construct_constraint_vecs_\<close> for a guess \<open>z_init\<close> of element type \<open>zd\<close>. With
  \<open>terminal_constraint\<close> the last \<open>ns\<close> entries of \<open>lineq_x\<close> are stored in place, then those
  entries of \<open>lineq_x\<close> are stored into \<open>uineq_x\<close> in place.
\<close>

definition construct_constraint_vecs ::
  "'p nmpc \<Rightarrow> vec \<Rightarrow> np_dtype \<Rightarrow> matrix \<Rightarrow> matrix \<Rightarrow> vec list \<Rightarrow> py_error + 'p nmpc" where
  "construct_constraint_vecs s z zd z_init u_init r_lst =
     (if z_init = [] then Inl IndexError
      else
        err_bind (vsub z (hd z_init)) (\<lambda>dz0.
        let leq = map uminus dz0 @ map uminus (concat r_lst); ueq = leq in
        err_bind (vsub (tile (mpc_umin s) (mpc_N s)) (concat u_init)) (\<lambda>lineq_u.
        err_bind (vsub (tile (mpc_umax s) (mpc_N s)) (concat u_init)) (\<lambda>uineq_u.
        err_bind (err_all (map (mat_vec (mpc_C s)) z_init)) (\<lambda>Cz.
        err_bind (vsub (tile (mpc_xmin s) (mpc_N s + 1)) (concat Cz)) (\<lambda>lineq_x.
        err_bind (vsub (tile (mpc_xmax s) (mpc_N s + 1)) (concat Cz)) (\<lambda>uineq_x.
        err_bind
          (if terminal_constraint s then
             err_bind (mat_vec (mpc_C s) (last z_init)) (\<lambda>y.
             err_bind (vsub (mpc_xr s) y) (\<lambda>v.
             err_bind (assign_tail (lineq_x_dtype s zd) lineq_x (mpc_ns s) v) (\<lambda>lx.
             err_bind (assign_tail (uineq_x_dtype s zd) uineq_x (mpc_ns s)
                         (tail_slice lx (mpc_ns s))) (\<lambda>ux.
               Inr (lx, ux)))))
           else Inr (lineq_x, uineq_x))
          (\<lambda>(lx, ux). Inr (s\<lparr>osqp_l := leq @ lineq_u @ lx, osqp_u := ueq @ uineq_u @ ux\<rparr>)))))))))"

subsection \<open>The flat value array and its index maps\<close>

text \<open>\<open>C_data[i]\<close>: the nonzero entries of column \<open>i\<close> of \<open>C\<close>, for \<open>i < nx\<close>.\<close>

definition C_data :: "matrix \<Rightarrow> nat \<Rightarrow> vec list" where
  "C_data C nx = map (\<lambda>i. filter (\<lambda>v. v \<noteq> 0) (col C i)) [0..<nx]"

text \<open>
  One round of the loop over the state variables (stage \<open>t\<close>, column \<open>i\<close>): the column
  \<open>[-1, A_lst[t][:, i], C_data[i]]\<close> is appended, the positions of its \<open>A\<close> entries are
  recorded, and \<open>start_ind_A\<close> advances. One round of the loop over the input variables
  likewise, with the column \<open>[B_lst[t][:, i], 1]\<close>.
\<close>

definition state_round ::
  "matrix list \<Rightarrow> vec list \<Rightarrow> nat \<Rightarrow> vec list \<times> nat list list \<times> nat \<Rightarrow> nat \<times> nat \<Rightarrow>
   vec list \<times> nat list list \<times> nat" where
  "state_round A_lst Cd nx acc p =
     (case acc of (data, A_inds, start_ind_A) \<Rightarrow>
      case p of (t, i) \<Rightarrow>
        (data @ [(- 1) # col (A_lst ! t) i @ Cd ! i],
         A_inds @ [[start_ind_A..<start_ind_A + nx]],
         start_ind_A + nx + 1 + length (Cd ! i)))"

definition input_round ::
  "matrix list \<Rightarrow> nat \<Rightarrow> vec list \<times> nat list list \<times> nat \<Rightarrow> nat \<times> nat \<Rightarrow>
   vec list \<times> nat list list \<times> nat" where
  "input_round B_lst nx acc p =
     (case acc of (data, B_inds, start_ind_B) \<Rightarrow>
      case p of (t, i) \<Rightarrow>
        (data @ [col (B_lst ! t) i @ [1]],
         B_inds @ [[start_ind_B..<start_ind_B + nx]],
         start_ind_B + nx + 1))"

text \<open>The index expressions \<open>M_lst[t][:, i]\<close> for \<open>t < N\<close>, \<open>i < k\<close> are all in range.\<close>

definition cols_in_range :: "nat \<Rightarrow> nat \<Rightarrow> matrix list \<Rightarrow> bool" where
  "cols_in_range N k Ms =
     (k = 0 \<or> N = 0 \<or>
      (N \<le> length Ms \<and> list_all (\<lambda>t. list_all (\<lambda>i. has_col (Ms ! t) i) [0..<k]) [0..<N]))"

definition construct_constraint_matrix_data ::
  "'p nmpc \<Rightarrow> matrix list \<Rightarrow> matrix list \<Rightarrow> py_error + 'p nmpc" where
  "construct_constraint_matrix_data s A_lst B_lst =
     (let nx = mpc_nx s; nu = mpc_nu s; N = mpc_N s in
      if \<not> list_all (has_col (mpc_C s)) [0..<nx] then Inl IndexError
      else if \<not> cols_in_range N nx A_lst then Inl IndexError
      else
        let Cd = C_data (mpc_C s) nx;
            (data1, A_inds, start_ind_A) =
               foldl (state_round A_lst Cd nx) ([], [], 1) (List.product [0..<N] [0..<nx]);
            data2 = data1 @ map (\<lambda>i. (- 1) # Cd ! i) [0..<nx];
            start_ind_B = start_ind_A + nx + length (nonzero_cols (mpc_C s)) - 1
        in if \<not> cols_in_range N nu B_lst then Inl IndexError
           else
             let (data3, B_inds, start_ind_B') =
                   foldl (input_round B_lst nx) (data2, [], start_ind_B) (List.product [0..<N] [0..<nu])
             in Inr (s\<lparr>osqp_A_data := Some (concat data3),
                      osqp_A_data_A_inds := concat A_inds,
                      osqp_A_data_B_inds := concat B_inds\<rparr>))"

text \<open>\<open>update_constraint_matrix_data_\<close>: the right-hand sides are evaluated before the
  value array is looked up, which does not exist before the first construction.\<close>

definition update_constraint_matrix_data ::
  "'p nmpc \<Rightarrow> matrix list \<Rightarrow> matrix list \<Rightarrow> py_error + 'p nmpc" where
  "update_constraint_matrix_data s A_lst B_lst =
     err_bind (hstack_flatten_F A_lst) (\<lambda>a_vals.
       case osqp_A_data s of
         None \<Rightarrow> Inl AttributeError
       | Some data \<Rightarrow>
           err_bind (assign_at data (osqp_A_data_A_inds s) a_vals) (\<lambda>data1.
           err_bind (hstack_flatten_F B_lst) (\<lambda>b_vals.
           err_bind (assign_at data1 (osqp_A_data_B_inds s) b_vals) (\<lambda>data2.
             Inr (s\<lparr>osqp_A_data := Some data2\<rparr>)))))"

subsection \<open>Construction, one solve, the iteration\<close>

definition np_ones :: "nat \<Rightarrow> nat \<Rightarrow> matrix" where
  "np_ones r c = replicate r (replicate c 1)"

text \<open>\<open>construct_controller\<close> for a guess \<open>z_init\<close> of element type \<open>zd\<close>.\<close>

definition construct_controller ::
  "'p nmpc \<Rightarrow> np_dtype \<Rightarrow> matrix \<Rightarrow> matrix \<Rightarrow> py_error + 'p nmpc" where
  "construct_controller s zd z_init u_init =
     (if z_init = [] then Inl IndexError
      else
        let z0 = hd z_init;
            A_lst = replicate (mpc_N s) (np_ones (mpc_nx s) (mpc_nx s));
            B_lst = replicate (mpc_N s) (np_ones (mpc_nx s) (mpc_nu s));
            r_lst = replicate (mpc_N s) (replicate (mpc_nx s) 1)
        in err_bind (construct_objective s z_init u_init) (\<lambda>s1.
           err_bind (construct_constraint_vecs s1 z0 zd z_init u_init r_lst) (\<lambda>s2.
           err_bind (construct_constraint_matrix s2 A_lst B_lst) (\<lambda>s3.
           err_bind (construct_constraint_matrix_data s3 A_lst B_lst) (\<lambda>s4.
             Inr (s4\<lparr>prob := Some (osqp_setup s4 (osqp_P s4) (osqp_q s4) (osqp_A s4)
                                      (osqp_l s4) (osqp_u s4))\<rparr>))))))"

text \<open>\<open>solve_mpc_\<close>: the solver's vector is split at \<open>(N + 1) * nx\<close> and each part reshaped
  in column-major order; a part of the wrong size raises ValueError. Before
  \<open>construct_controller\<close> has run there is no solver handle (AttributeError).\<close>

definition solve_mpc :: "'p nmpc \<Rightarrow> py_error + matrix \<times> matrix \<times> 'p nmpc" where
  "solve_mpc s =
     (case prob s of
        None \<Rightarrow> Inl AttributeError
      | Some p \<Rightarrow>
          (case osqp_A_data s of
             None \<Rightarrow> Inl AttributeError
           | Some Ax \<Rightarrow>
               (case osqp_solve s p (osqp_q s) Ax (osqp_l s) (osqp_u s) of
                  (x, p') \<Rightarrow>
                    let k = (mpc_N s + 1) * mpc_nx s in
                    if length (take k x) \<noteq> mpc_nx s * (mpc_N s + 1) \<or>
                       length (drop k x) \<noteq> mpc_nu s * mpc_N s
                    then Inl ValueError
                    else Inr (reshape_F (mpc_nx s) (mpc_N s + 1) (take k x),
                              reshape_F (mpc_nu s) (mpc_N s) (drop k x),
                              s\<lparr>prob := Some p', res_x := x\<rparr>))))"

text \<open>The body of the while loop of \<open>solve_to_convergence\<close>, for the current state \<open>z\<close>.
  The new guess \<open>z_init + dz.T\<close> is a float array, as the solver's step is one.\<close>

definition stc_iteration :: "'p nmpc \<Rightarrow> vec \<Rightarrow> py_error + 'p nmpc" where
  "stc_iteration s z =
     (let z_init = cur_z s; u_init = cur_u s;
          lins = map (\<lambda>(za, zn, u). get_linearization s za zn u)
                     (zip (butlast z_init) (zip (tl z_init) u_init));
          A_lst = map fst lins; B_lst = map (fst \<circ> snd) lins; r_lst = map (snd \<circ> snd) lins
      in err_bind (update_objective s z_init u_init) (\<lambda>s1.
         err_bind (construct_constraint_vecs s1 z (cur_z_dtype s) z_init u_init r_lst) (\<lambda>s2.
         err_bind (update_constraint_matrix_data s2 A_lst B_lst) (\<lambda>s3.
         err_bind (solve_mpc s3) (\<lambda>(dz, du, s4).
         err_bind (madd z_init (np_T (mpc_nx s) (mpc_N s + 1) dz)) (\<lambda>cz.
         err_bind (madd u_init (np_T (mpc_nu s) (mpc_N s) du)) (\<lambda>cu.
           Inr (s4\<lparr>cur_z := cz, cur_z_dtype := float64, cur_u := cu,
                   comp_time := comp_time s4 @ [elapsed s4 (length (comp_time s4))],
                   x_iter := x_iter s4 @ [np_T (mpc_N s + 1) (mpc_nx s) cz],
                   u_iter := u_iter s4 @ [np_T (mpc_N s) (mpc_nu s) cu]\<rparr>))))))))"

text \<open>
  \<^verbatim>\<open>while (iter == 0 or np.linalg.norm(u_prev - self.cur_u) > eps) and iter < max_iter\<close>;
  \<open>u_prev\<close> is the control trajectory the pass started from.
\<close>

function stc_loop ::
  "vec \<Rightarrow> real \<Rightarrow> nat \<Rightarrow> nat \<Rightarrow> matrix \<Rightarrow> 'p nmpc \<Rightarrow> py_error + 'p nmpc" where
  "stc_loop z eps max_iter iter u_prev s =
     (if (iter = 0 \<or> norm_diff u_prev (cur_u s) > eps) \<and> iter < max_iter then
        (case stc_iteration s z of
           Inl e \<Rightarrow> Inl e
         | Inr s' \<Rightarrow> stc_loop z eps max_iter (iter + 1) (cur_u s) s')
      else Inr s)"
  by pat_completeness auto
termination
  by (relation "measure (\<lambda>(z, eps, max_iter, iter, u_prev, s). max_iter - iter)") auto

declare stc_loop.simps [simp del]

text \<open>The state after \<open>k\<close> passes of the loop body, and the norm of the change of the
  control trajectory made by pass \<open>j \<ge> 1\<close>.\<close>

fun stc_run :: "vec \<Rightarrow> nat \<Rightarrow> 'p nmpc \<Rightarrow> py_error + 'p nmpc" where
  "stc_run z 0 s = Inr s"
| "stc_run z (Suc k) s =
     (case stc_iteration s z of Inl e \<Rightarrow> Inl e | Inr s' \<Rightarrow> stc_run z k s')"

definition u_change :: "vec \<Rightarrow> nat \<Rightarrow> 'p nmpc \<Rightarrow> real" where
  "u_change z j s =
     norm_diff (cur_u (projr (stc_run z (j - 1) s))) (cur_u (projr (stc_run z j s)))"

text \<open>\<open>solve_to_convergence\<close> for a first guess \<open>z_init_0\<close> of element type \<open>zd\<close>.\<close>

definition solve_to_convergence ::
  "'p nmpc \<Rightarrow> vec \<Rightarrow> np_dtype \<Rightarrow> matrix \<Rightarrow> matrix \<Rightarrow> real \<Rightarrow> nat \<Rightarrow> py_error + 'p nmpc" where
  "solve_to_convergence s z zd z_init_0 u_init_0 eps max_iter =
     stc_loop z eps max_iter 0 (map (map (\<lambda>_. 0)) u_init_0)
       (s\<lparr>cur_z := z_init_0, cur_z_dtype := zd, cur_u := u_init_0\<rparr>)"

text \<open>The call with the default arguments \<^verbatim>\<open>eps=1e-3, max_iter=1\<close>.\<close>

definition solve_to_convergence_default ::
  "'p nmpc \<Rightarrow> vec \<Rightarrow> np_dtype \<Rightarrow> matrix \<Rightarrow> matrix \<Rightarrow> py_error + 'p nmpc" where
  "solve_to_convergence_default s z zd z_init_0 u_init_0 =
     solve_to_convergence s z zd z_init_0 u_init_0 (1 / 1000) 1"

subsection \<open>Well-shaped data\<close>

text \<open>An \<open>r \<times> c\<close> array; a controller whose output map is \<open>ns \<times> nx\<close> and whose bounds
  and reference have the matching lengths.\<close>

definition is_matrix :: "nat \<Rightarrow> nat \<Rightarrow> matrix \<Rightarrow> bool" where
  "is_matrix r c M = (length M = r \<and> list_all (\<lambda>row. length row = c) M)"


text \<open>A list of \<open>N\<close> linearization blocks, each \<open>r \<times> c\<close>.\<close>

definition blocks_shaped :: "nat \<Rightarrow> nat \<Rightarrow> nat \<Rightarrow> matrix list \<Rightarrow> bool" where
  "blocks_shaped N r c Ms = (length Ms = N \<and> list_all (is_matrix r c) Ms)"

section \<open>Bilinear feedback-linearizing MPC\<close>

text \<open>
  The auxiliary controller. The bilinear dynamics object is given by its lifting
  \<open>phi_fun\<close>, its \<open>eval_dot\<close>, the matrices \<open>F\<close> and \<open>Cx\<close> and the local actuation matrix
  \<open>act(z, t)\<close>. The cvxpy problem is given by its state (absent before
  \<open>construct_controller\<close>) and by \<open>cvx_solve\<close>, which stands for
  \<^verbatim>\<open>mpc_prob.solve(solver=cvx.OSQP, warm_start=True)\<close> on the current parameter values and
  returns the status, the values of the problem's variables and the problem's new state.
  \<open>linalg_solve\<close> stands for \<^verbatim>\<open>np.linalg.solve\<close>, which raises on a singular system.
\<close>

record qp_params =
  eta_z_init_value :: vec
  eta_z_d_value :: vec
  zd_value :: vec
  zd_dot_value :: vec
  zd_ddot_value :: vec

record 'q bmpc =
  bmpc_n_lift :: nat
  bmpc_set_pt :: vec
  phi_fun :: "vec \<Rightarrow> vec"
  eval_dot :: "vec \<Rightarrow> vec \<Rightarrow> real \<Rightarrow> vec"
  dyn_F :: matrix
  dyn_act :: "vec \<Rightarrow> real \<Rightarrow> matrix"
  dyn_Cx :: matrix
  cvx_solve :: "'q \<Rightarrow> qp_params \<Rightarrow> string \<times> matrix list \<times> 'q"
  linalg_solve :: "matrix \<Rightarrow> vec \<Rightarrow> py_error + vec"
  mpc_prob :: "'q option"
  bmpc_param_values :: "qp_params option"
  bmpc_u_prev :: vec

text \<open>\<open>a + b\<close> on vectors, with the broadcasting of a vector of length one. Assigning the
  value of a cvxpy parameter of a given length raises ValueError for another length.\<close>

definition vadd :: "vec \<Rightarrow> vec \<Rightarrow> py_error + vec" where
  "vadd a b =
     (if length a = length b then Inr (map2 (+) a b)
      else if length a = 1 then Inr (map (\<lambda>y. hd a + y) b)
      else if length b = 1 then Inr (map (\<lambda>x. x + hd b) a)
      else Inl ValueError)"

definition set_param :: "nat \<Rightarrow> vec \<Rightarrow> py_error + vec" where
  "set_param n v = (if length v = n then Inr v else Inl ValueError)"

text \<open>
  \<open>phi_fun\<close> returns an array with a single row, or a 1-D array; the model holds its
  entries. \<^verbatim>\<open>.squeeze()\<close> removes the axes of length one, so the squeezed lift is 1-D
  unless it has exactly one entry: then it is 0-dimensional. A 0-dimensional array enters
  a difference like a scalar (which \<open>vsub\<close> covers, and the difference of two of them is
  0-dimensional again), and \<^verbatim>\<open>np.concatenate\<close> raises ValueError when its first array is
  0-dimensional.
\<close>

definition zero_dim :: "vec \<Rightarrow> bool" where
  "zero_dim v = (length v = 1)"

definition concatenate_sq :: "bool \<Rightarrow> vec \<Rightarrow> vec \<Rightarrow> py_error + vec" where
  "concatenate_sq first_zero_dim a b = (if first_zero_dim then Inl ValueError else Inr (a @ b))"

text \<open>The first half of \<open>eval\<close>: the reference and the current lifted state, both squeezed,
  and the update of all parameters. The reference derivatives are zero vectors.\<close>

definition bmpc_set_params :: "'q bmpc \<Rightarrow> vec \<Rightarrow> real \<Rightarrow> py_error + qp_params" where
  "bmpc_set_params c x t =
     (let zd = phi_fun c (bmpc_set_pt c);
          zd_dot = replicate (bmpc_n_lift c) 0;
          zd_ddot = replicate (bmpc_n_lift c) 0;
          z = phi_fun c x;
          z_dot = eval_dot c z (bmpc_u_prev c) t
      in err_bind (vsub z zd) (\<lambda>e1.
         err_bind (vsub z_dot zd_dot) (\<lambda>e2.
         err_bind (concatenate_sq (zero_dim z \<and> zero_dim zd) e1 e2) (\<lambda>v1.
         err_bind (set_param (2 * bmpc_n_lift c) v1) (\<lambda>p1.
         err_bind (concatenate_sq (zero_dim zd) zd zd_dot) (\<lambda>v2.
         err_bind (set_param (2 * bmpc_n_lift c) v2) (\<lambda>p2.
         err_bind (set_param (bmpc_n_lift c) zd) (\<lambda>p3.
         err_bind (set_param (bmpc_n_lift c) zd_dot) (\<lambda>p4.
         err_bind (set_param (bmpc_n_lift c) zd_ddot) (\<lambda>p5.
           Inr \<lparr>eta_z_init_value = p1, eta_z_d_value = p2, zd_value = p3,
                zd_dot_value = p4, zd_ddot_value = p5\<rparr>))))))))))"

text \<open>
  \<open>eval\<close>: update the parameters, solve the auxiliary QP, assert that the status is
  \<^verbatim>\<open>'optimal'\<close>, read \<open>nu\<close> as the first column of the problem's second variable, and
  solve \<open>(C F act(z, t)) u = C (zd_ddot - F F zd + nu)\<close> for the control \<open>u\<close>, which is stored
  as \<open>u_prev\<close> and returned.
\<close>

definition bmpc_eval :: "'q bmpc \<Rightarrow> vec \<Rightarrow> real \<Rightarrow> py_error + vec \<times> 'q bmpc" where
  "bmpc_eval c x t =
     (case mpc_prob c of
        None \<Rightarrow> Inl AttributeError
      | Some q \<Rightarrow>
          err_bind (bmpc_set_params c x t) (\<lambda>ps.
            case cvx_solve c q ps of
              (status, vars, q') \<Rightarrow>
                if status \<noteq> ''optimal'' then Inl AssertionError
                else if length vars \<le> 1 \<or> \<not> has_col (vars ! 1) 0 then Inl IndexError
                else
                  let nu = col (vars ! 1) 0;
                      zd = phi_fun c (bmpc_set_pt c);
                      zd_ddot = replicate (bmpc_n_lift c) 0;
                      z = phi_fun c x
                  in err_bind (mat_mul (dyn_Cx c) (dyn_F c)) (\<lambda>CF.
                     err_bind (mat_mul CF (dyn_act c z t)) (\<lambda>M.
                     err_bind (mat_mul (dyn_F c) (dyn_F c)) (\<lambda>FF.
                     err_bind (mat_vec FF zd) (\<lambda>FFzd.
                     err_bind (vsub zd_ddot FFzd) (\<lambda>d.
                     err_bind (vadd d nu) (\<lambda>w.
                     err_bind (mat_vec (dyn_Cx c) w) (\<lambda>b.
                     err_bind (linalg_solve c M b) (\<lambda>u.
                       Inr (u, c\<lparr>mpc_prob := Some q', bmpc_param_values := Some ps,
                                 bmpc_u_prev := u\<rparr>)))))))))))"

subsection \<open>Example instances\<close>

text \<open>A standardizer that halves every entry (its inverse doubles), and a fitter with
  \<open>n = 2\<close>, \<open>m = 1\<close>, \<open>n_lift = 3\<close> whose stub optimizer returns the regressor
  rows as coefficients.\<close>

definition ex_standardizer :: standardizer where
  "ex_standardizer = \<lparr> transform = map (map (\<lambda>v. v / 2)), inverse_transform = map (map (\<lambda>v. v * 2)) \<rparr>"

definition ex_edmd :: "standardizer option \<Rightarrow> bilinear_edmd" where
  "ex_edmd stdz = init_edmd 2 1 (\<lambda>x. x) (\<lambda>x u. x) 3 1 (\<lambda>X y. X) None stdz [[0, 1, 0], [0, 0, 1]]"

text \<open>
  A fitted model of a damped point mass, lifted coordinates (position, velocity):
  \<open>position' = velocity\<close>, \<open>velocity' = - velocity + u \<cdot> velocity\<close>, both coordinates
  read by the output map \<open>C = I\<close>.
\<close>

definition ex_damped :: bilinear_edmd where
  "ex_damped = (init_edmd 2 1 (\<lambda>x. x) (\<lambda>x u. x) 2 1 (\<lambda>X y. X) None None [[1, 0], [0, 1]])
                 \<lparr>edmd_A := [[0, 1], [0, -1]], edmd_B := [[[0, 0], [0, 1]]]\<rparr>"

subsection \<open>An example controller\<close>

definition ex_mpc :: "nat nmpc" where
  "ex_mpc = \<lparr> mpc_nx = 1, mpc_nu = 1, mpc_N = 1, mpc_ns = 1,
      mpc_C = [[1]], mpc_C_dtype = float64, mpc_Q = [[1]], mpc_QN = [[1]], mpc_R = [[1]],
      mpc_xmin = [- 10], mpc_xmin_dtype = float64, mpc_xmax = [10], mpc_xmax_dtype = float64,
      mpc_umin = [- 1], mpc_umax = [1], mpc_xr = [0],
      terminal_constraint = False,
      get_linearization = (\<lambda>z zn u. ([[1]], [[1]], [0])),
      osqp_setup = (\<lambda>P q A l u. 0),
      osqp_solve = (\<lambda>p q Ax l u. (if p = 0 then [0, 0, 1] else [0, 0, 0], Suc p)),
      elapsed = (\<lambda>k. 0),
      prob = None, res_x = [], cur_z = [], cur_z_dtype = float64, cur_u = [],
      comp_time = [], x_iter = [], u_iter = [],
      osqp_P = [], osqp_q = [], osqp_A = [], osqp_l = [], osqp_u = [],
      osqp_A_data = None, osqp_A_data_A_inds = [], osqp_A_data_B_inds = [] \<rparr>"


definition ex_ctrl :: "nat nmpc" where
  "ex_ctrl = ex_mpc\<lparr> prob := Some 0,
      osqp_P := [[1, 0, 0], [0, 1, 0], [0, 0, 1]], osqp_q := [0, 0, 0],
      osqp_A := [[- 1, 0, 0], [1, - 1, 1], [0, 0, 1], [1, 0, 0], [0, 1, 0]],
      osqp_l := [0, - 1, - 1, - 10, - 10], osqp_u := [0, - 1, 1, 10, 10],
      osqp_A_data := Some [- 1, 1, 1, - 1, 1, 1, 1],
      osqp_A_data_A_inds := [1], osqp_A_data_B_inds := [5] \<rparr>"

definition ex_pass1 :: "nat nmpc" where
  "ex_pass1 = ex_ctrl\<lparr> prob := Some 1, res_x := [0, 0, 1], cur_z := [[0], [0]], cur_u := [[1]],
      comp_time := [0], x_iter := [[[0, 0]]], u_iter := [[[1]]],
      osqp_q := [0, 0, 0], osqp_l := [0, 0, - 1, - 10, - 10], osqp_u := [0, 0, 1, 10, 10] \<rparr>"

definition ex_pass2 :: "nat nmpc" where
  "ex_pass2 = ex_pass1\<lparr> prob := Some 2, res_x := [0, 0, 0],
      comp_time := [0, 0], x_iter := [[[0, 0]], [[0, 0]]], u_iter := [[[1]], [[1]]],
      osqp_q := [0, 0, 1], osqp_l := [0, 0, - 2, - 10, - 10], osqp_u := [0, 0, 0, 10, 10] \<rparr>"

text \<open>A pass from a guess that is not zero, with a solver whose step is not zero.\<close>

definition ex_warm :: "nat nmpc" where
  "ex_warm = ex_ctrl\<lparr> osqp_solve := (\<lambda>p q Ax l u. ([1 / 2, 1 / 4, 1], Suc p)),
      cur_z := [[2], [3]], cur_u := [[1]] \<rparr>"

definition ex_warm_next :: "nat nmpc" where
  "ex_warm_next = ex_warm\<lparr> prob := Some 1, res_x := [1 / 2, 1 / 4, 1],
      cur_z := [[5 / 2], [13 / 4]], cur_u := [[2]],
      comp_time := [0], x_iter := [[[5 / 2, 13 / 4]]], u_iter := [[[2]]],
      osqp_q := [2, 3, 1], osqp_l := [1, 0, - 2, - 12, - 13], osqp_u := [1, 0, 0, 8, 7] \<rparr>"


text \<open>The same controller with integer arrays \<open>C\<close>, \<open>xmin\<close>, \<open>xmax\<close> and reference \<open>[1/2]\<close>.\<close>

definition ex_mpc_integer :: "nat nmpc" where
  "ex_mpc_integer = ex_mpc\<lparr>terminal_constraint := True, mpc_xr := [1 / 2],
      mpc_C_dtype := int64, mpc_xmin_dtype := int64, mpc_xmax_dtype := int64\<rparr>"

text \<open>An instance of the auxiliary controller with two lifted coordinates; its solver stub
  reports the status it is given. The same with a single lifted coordinate.\<close>

definition ex_bmpc :: "string \<Rightarrow> nat bmpc" where
  "ex_bmpc status = \<lparr> bmpc_n_lift = 2, bmpc_set_pt = [1, 0],
      phi_fun = (\<lambda>x. x), eval_dot = (\<lambda>z u t. [1 / 2, 0]),
      dyn_F = [[1, 1], [0, 1]], dyn_act = (\<lambda>z t. [[0], [2]]), dyn_Cx = [[1, 0]],
      cvx_solve = (\<lambda>q ps. (status, [[[0, 0], [0, 0], [0, 0], [0, 0]], [[4], [6]]], Suc q)),
      linalg_solve = (\<lambda>M b. if hd (hd M) = 0 then Inl LinAlgError else Inr [hd b / hd (hd M)]),
      mpc_prob = Some 0, bmpc_param_values = None, bmpc_u_prev = [0] \<rparr>"

definition ex_bmpc_single :: "nat bmpc" where
  "ex_bmpc_single = \<lparr> bmpc_n_lift = 1, bmpc_set_pt = [0],
      phi_fun = (\<lambda>x. x), eval_dot = (\<lambda>z u t. [0]),
      dyn_F = [[1]], dyn_act = (\<lambda>z t. [[2]]), dyn_Cx = [[1]],
      cvx_solve = (\<lambda>q ps. (''optimal'', [[[0, 0]], [[4]]], Suc q)),
      linalg_solve = (\<lambda>M b. if hd (hd M) = 0 then Inl LinAlgError else Inr [hd b / hd (hd M)]),
      mpc_prob = Some 0, bmpc_param_values = None, bmpc_u_prev = [0] \<rparr>"

section \<open>Properties of the fitter\<close>

lemma np_zeros_nth: "i < r \<Longrightarrow> np_zeros r c ! i = replicate c 0"
  by (simp add: np_zeros_def)

lemma length_np_zeros: "length (np_zeros r c) = r"
  by (simp add: np_zeros_def)

lemma length_np_eye: "length (np_eye k) = k"
  by (simp add: np_eye_def)

lemma np_eye_nth: "i < k \<Longrightarrow> np_eye k ! i = map (\<lambda>j. if i = j then 1 else 0) [0..<k]"
  by (simp add: np_eye_def)

lemma length_kin_dyn: "length (kin_dyn n n_lift c) = n div 2"
  by (simp add: kin_dyn_def concatenate1_def length_np_zeros length_np_eye)

lemma kin_dyn_nth:
  "i < n div 2 \<Longrightarrow>
   kin_dyn n n_lift c ! i =
     replicate (n div 2 + c) 0 @ map (\<lambda>j. if i = j then 1 else 0) [0..<n div 2] @
     replicate (n_lift - n - c) 0"
  by (simp add: kin_dyn_def concatenate1_def length_np_zeros length_np_eye np_zeros_nth np_eye_nth)

lemma concatenate0_Inr: "concatenate0 Ms = Inr M \<Longrightarrow> M = concat Ms"
  by (simp add: concatenate0_def Let_def split: if_splits)

lemma append_B_kin_Inr:
  "append_B_kin n n_lift c coefs B iis = Inr B' \<Longrightarrow>
   length B' = length B + length iis \<and> take (length B) B' = B \<and>
   (\<forall>k < length iis. B' ! (length B + k) =
      np_zeros (n div 2 + c) n_lift @
      slice_cols coefs (n_lift * (iis ! k + 1)) (n_lift * (iis ! k + 2)))"
proof (induction iis arbitrary: B)
  case Nil
  then show ?case by simp
next
  case (Cons ii iis)
  from Cons.prems obtain Bi where
    Bi: "concatenate0 [np_zeros (n div 2 + c) n_lift,
                       slice_cols coefs (n_lift * (ii + 1)) (n_lift * (ii + 2))] = Inr Bi"
    and rec: "append_B_kin n n_lift c coefs (B @ [Bi]) iis = Inr B'"
    by (auto split: sum.splits)
  from concatenate0_Inr[OF Bi] have Bi_eq:
    "Bi = np_zeros (n div 2 + c) n_lift @ slice_cols coefs (n_lift * (ii + 1)) (n_lift * (ii + 2))"
    by simp
  from Cons.IH[OF rec] have
    len: "length B' = length B + 1 + length iis" and
    tk: "take (length B + 1) B' = B @ [Bi]" and
    nth: "\<forall>k < length iis. B' ! (length B + 1 + k) =
      np_zeros (n div 2 + c) n_lift @
      slice_cols coefs (n_lift * (iis ! k + 1)) (n_lift * (iis ! k + 2))"
    by simp_all
  have tk': "take (length B) B' = B"
  proof -
    have "take (length B) B' = take (length B) (take (length B + 1) B')"
      by (simp add: min_def)
    also have "\<dots> = take (length B) (B @ [Bi])" by (simp only: tk)
    finally show ?thesis by simp
  qed
  have at: "B' ! length B = Bi"
  proof -
    have "B' ! length B = take (length B + 1) B' ! length B" by simp
    also have "\<dots> = (B @ [Bi]) ! length B" by (simp only: tk)
    finally show ?thesis by simp
  qed
  have "\<forall>k < length (ii # iis). B' ! (length B + k) =
      np_zeros (n div 2 + c) n_lift @
      slice_cols coefs (n_lift * ((ii # iis) ! k + 1)) (n_lift * ((ii # iis) ! k + 2))"
  proof (intro allI impI)
    fix k assume k: "k < length (ii # iis)"
    show "B' ! (length B + k) =
      np_zeros (n div 2 + c) n_lift @
      slice_cols coefs (n_lift * ((ii # iis) ! k + 1)) (n_lift * ((ii # iis) ! k + 2))"
    proof (cases k)
      case 0
      then show ?thesis using at Bi_eq by simp
    next
      case (Suc k')
      with k have "k' < length iis" by simp
      with nth Suc show ?thesis by simp
    qed
  qed
  with len tk' show ?case by simp
qed


subsection \<open>What fit stores\<close>

lemma fit_override_Inr:
  assumes "fit s X y cv True foc = Inr s'"
  shows "edmd_A s' = (if foc then [replicate (edmd_n_lift s) 0] else []) @
           kin_dyn (edmd_n s) (edmd_n_lift s) (of_bool foc) @
           slice_cols (std_coefs s (projr (fit_coefs s X (map (drop (edmd_n s div 2 + of_bool foc)) y) cv)))
             0 (edmd_n_lift s)"
    and "append_B_kin (edmd_n s) (edmd_n_lift s) (of_bool foc)
           (std_coefs s (projr (fit_coefs s X (map (drop (edmd_n s div 2 + of_bool foc)) y) cv)))
           (edmd_B s) [0..<edmd_m s] = Inr (edmd_B s')"
    and "edmd_n s + of_bool foc \<le> edmd_n_lift s"
  using assms
  by (auto simp: fit_def Let_def np_zeros_def dest!: concatenate0_Inr split: sum.splits if_splits)

text \<open>
  C4. When \<open>fit\<close> is called with \<open>override_kinematics = True\<close>, with \<open>h = n div 2\<close> and
  \<open>c = 1\<close> when \<open>first_obs_const\<close> is set and \<open>0\<close> otherwise: row \<open>c + i\<close> of the resulting
  \<open>A\<close>, for each \<open>i < h\<close>, is \<open>h + c\<close> zeros, then row \<open>i\<close> of the \<open>h \<times> h\<close> identity, then
  zeros (the identity block sits at column offset \<open>h + c\<close>); the call appends \<open>m\<close> matrices
  to \<open>B\<close>, and the first \<open>h + c\<close> rows of each of them (the bias row included) are zero.
\<close>

theorem fit_override_kinematics:
  assumes "fit s X y cv True first_obs_const = Inr s'"
  shows "(\<forall>i < edmd_n s div 2.
            edmd_A s' ! (of_bool first_obs_const + i) =
              replicate (edmd_n s div 2 + of_bool first_obs_const) 0 @
              map (\<lambda>j. if i = j then 1 else 0) [0..<edmd_n s div 2] @
              replicate (edmd_n_lift s - edmd_n s - of_bool first_obs_const) 0) \<and>
         length (edmd_B s') = length (edmd_B s) + edmd_m s \<and>
         (\<forall>k < edmd_m s. \<forall>r < edmd_n s div 2 + of_bool first_obs_const.
            edmd_B s' ! (length (edmd_B s) + k) ! r = replicate (edmd_n_lift s) 0)"
proof -
  let ?h = "edmd_n s div 2" and ?c = "of_bool first_obs_const :: nat"
  note F = fit_override_Inr[OF assms]
  have A: "\<forall>i < ?h. edmd_A s' ! (?c + i) =
              replicate (?h + ?c) 0 @ map (\<lambda>j. if i = j then 1 else 0) [0..<?h] @
              replicate (edmd_n_lift s - edmd_n s - ?c) 0"
  proof (intro allI impI)
    fix i assume i: "i < ?h"
    have "edmd_A s' ! (?c + i) =
          (kin_dyn (edmd_n s) (edmd_n_lift s) ?c @
           slice_cols (std_coefs s (projr (fit_coefs s X (map (drop (?h + ?c)) y) cv)))
             0 (edmd_n_lift s)) ! i"
      by (cases first_obs_const) (simp_all add: F(1))
    also have "\<dots> = kin_dyn (edmd_n s) (edmd_n_lift s) ?c ! i"
      using i by (simp add: nth_append length_kin_dyn)
    finally show "edmd_A s' ! (?c + i) =
              replicate (?h + ?c) 0 @ map (\<lambda>j. if i = j then 1 else 0) [0..<?h] @
              replicate (edmd_n_lift s - edmd_n s - ?c) 0"
      using i by (simp add: kin_dyn_nth)
  qed
  note B = append_B_kin_Inr[OF F(2)]
  have Blen: "length (edmd_B s') = length (edmd_B s) + edmd_m s"
    using B by simp
  have Brows: "\<forall>k < edmd_m s. \<forall>r < ?h + ?c.
            edmd_B s' ! (length (edmd_B s) + k) ! r = replicate (edmd_n_lift s) 0"
  proof (intro allI impI)
    fix k r assume k: "k < edmd_m s" and r: "r < ?h + ?c"
    from B k have "edmd_B s' ! (length (edmd_B s) + k) =
        np_zeros (?h + ?c) (edmd_n_lift s) @
        slice_cols (std_coefs s (projr (fit_coefs s X (map (drop (?h + ?c)) y) cv)))
          (edmd_n_lift s * (k + 1)) (edmd_n_lift s * (k + 2))"
      by simp
    then show "edmd_B s' ! (length (edmd_B s) + k) ! r = replicate (edmd_n_lift s) 0"
      using r by (simp add: nth_append length_np_zeros np_zeros_nth)
  qed
  from A Blen Brows show ?thesis by blast
qed


lemma append_B_kin_eq:
  assumes "append_B_kin n n_lift c coefs B iis = Inr B'"
  shows "B' = B @ map (\<lambda>ii. np_zeros (n div 2 + c) n_lift @
                          slice_cols coefs (n_lift * (ii + 1)) (n_lift * (ii + 2))) iis"
proof (rule nth_equalityI)
  note H = append_B_kin_Inr[OF assms]
  show "length B' = length (B @ map (\<lambda>ii. np_zeros (n div 2 + c) n_lift @
                          slice_cols coefs (n_lift * (ii + 1)) (n_lift * (ii + 2))) iis)"
    using H by simp
  fix i assume i: "i < length B'"
  show "B' ! i = (B @ map (\<lambda>ii. np_zeros (n div 2 + c) n_lift @
                          slice_cols coefs (n_lift * (ii + 1)) (n_lift * (ii + 2))) iis) ! i"
  proof (cases "i < length B")
    case True
    have "B' ! i = take (length B) B' ! i" using True by simp
    also have "\<dots> = B ! i" using H by simp
    finally show ?thesis using True by (simp add: nth_append)
  next
    case False
    then obtain k where k: "i = length B + k" by (metis le_add_diff_inverse not_less)
    with i H have "k < length iis" by simp
    with H k show ?thesis by (simp add: nth_append)
  qed
qed

lemma fit_Inr:
  assumes "fit s X y cv ok foc = Inr s'"
  shows "\<exists>raw. fit_coefs s X (if ok then map (drop (edmd_n s div 2 + of_bool foc)) y else y) cv = Inr raw \<and>
           s' = s\<lparr>edmd_A := (if ok then (if foc then [replicate (edmd_n_lift s) 0] else []) @
                                    kin_dyn (edmd_n s) (edmd_n_lift s) (of_bool foc) else []) @
                             slice_cols (std_coefs s raw) 0 (edmd_n_lift s),
                  edmd_B := edmd_B s @
                     map (\<lambda>ii. (if ok then np_zeros (edmd_n s div 2 + of_bool foc) (edmd_n_lift s) else []) @
                               slice_cols (std_coefs s raw) (edmd_n_lift s * (ii + 1)) (edmd_n_lift s * (ii + 2)))
                         [0..<edmd_m s]\<rparr>"
proof (cases ok)
  case False
  with assms show ?thesis
    by (auto simp: fit_def Let_def split: sum.splits)
next
  case True
  with assms show ?thesis
    by (auto simp: fit_def Let_def np_zeros_def dest!: concatenate0_Inr append_B_kin_eq
             split: sum.splits if_splits)
qed


theorem fit_override_kinematics_witness:
  "fit (ex_edmd None) [[7, 8, 9, 1, 2, 3]] [[0, 0, 0]] False True True =
     Inr ((ex_edmd None)\<lparr>edmd_A := [[0, 0, 0], [0, 0, 1], [7, 8, 9]],
                           edmd_B := [[[0, 0, 0], [0, 0, 0], [1, 2, 3]]]\<rparr>) \<and>
   [[0, 0, 0], [0, 0, 1], [7, 8, 9]] ! 1 = [0, 0, 1 :: real] \<and>
   [[[0, 0, 0], [0, 0, 0], [1, 2, 3]]] ! 0 ! 1 = [0, 0, 0 :: real]"
proof -
  have h: "fit (ex_edmd None) [[7, 8, 9, 1, 2, 3]] [[0, 0, 0]] False True True =
     Inr ((ex_edmd None)\<lparr>edmd_A := [[0, 0, 0], [0, 0, 1], [7, 8, 9]],
                           edmd_B := [[[0, 0, 0], [0, 0, 0], [1, 2, 3]]]\<rparr>)"
    by (simp add: fit_def ex_edmd_def init_edmd_def fit_coefs_def std_coefs_def kin_dyn_def
          concatenate0_def concatenate1_def same_width_def np_zeros_def np_eye_def slice_cols_def
          numeral_2_eq_2 numeral_3_eq_3 upt_rec[of 0])
  from fit_override_kinematics[OF h] show ?thesis
    using h by (simp add: ex_edmd_def init_edmd_def numeral_3_eq_3)
qed

text \<open>
  C8 (amended). When a standardizer is configured, \<open>fit\<close> applies the standardizer's
  forward \<open>transform\<close> (not \<open>inverse_transform\<close>) to the raw regression coefficients
  before they are sliced into \<open>A\<close> and the \<open>B\<^sub>i\<close>; when no standardizer is configured the
  raw coefficients are sliced unchanged.
\<close>

theorem fit_applies_transform:
  assumes "fit s X y cv override_kinematics first_obs_const = Inr s'"
  shows "\<exists>raw. fit_coefs s X (if override_kinematics
                                then map (drop (edmd_n s div 2 + of_bool first_obs_const)) y
                                else y) cv = Inr raw \<and>
           (let coefs = (case edmd_standardizer s of None \<Rightarrow> raw | Some st \<Rightarrow> transform st raw)
            in edmd_A s' =
                 (if override_kinematics
                  then (if first_obs_const then [replicate (edmd_n_lift s) 0] else []) @
                       kin_dyn (edmd_n s) (edmd_n_lift s) (of_bool first_obs_const)
                  else []) @ slice_cols coefs 0 (edmd_n_lift s) \<and>
               (\<forall>ii < edmd_m s.
                  edmd_B s' ! (length (edmd_B s) + ii) =
                    (if override_kinematics
                     then np_zeros (edmd_n s div 2 + of_bool first_obs_const) (edmd_n_lift s)
                     else []) @
                    slice_cols coefs (edmd_n_lift s * (ii + 1)) (edmd_n_lift s * (ii + 2))))"
proof -
  from fit_Inr[OF assms] obtain raw where
    raw: "fit_coefs s X (if override_kinematics
                         then map (drop (edmd_n s div 2 + of_bool first_obs_const)) y
                         else y) cv = Inr raw"
    and s': "s' = s\<lparr>edmd_A := (if override_kinematics
                   then (if first_obs_const then [replicate (edmd_n_lift s) 0] else []) @
                        kin_dyn (edmd_n s) (edmd_n_lift s) (of_bool first_obs_const) else []) @
                             slice_cols (std_coefs s raw) 0 (edmd_n_lift s),
                  edmd_B := edmd_B s @
                     map (\<lambda>ii. (if override_kinematics
                                then np_zeros (edmd_n s div 2 + of_bool first_obs_const) (edmd_n_lift s)
                                else []) @
                               slice_cols (std_coefs s raw) (edmd_n_lift s * (ii + 1)) (edmd_n_lift s * (ii + 2)))
                         [0..<edmd_m s]\<rparr>"
    by blast
  show ?thesis
    by (rule exI[of _ raw]) (simp add: raw s' std_coefs_def Let_def)
qed

theorem fit_applies_transform_witness:
  "fit (ex_edmd (Some ex_standardizer)) [[8, 6, 4, 2, 2, 2]] [] False False False =
     Inr ((ex_edmd (Some ex_standardizer))\<lparr>edmd_A := [[4, 3, 2]], edmd_B := [[[1, 1, 1]]]\<rparr>) \<and>
   transform ex_standardizer [[8, 6, 4, 2, 2, 2]] = [[4, 3, 2, 1, 1, 1]]"
proof -
  have h: "fit (ex_edmd (Some ex_standardizer)) [[8, 6, 4, 2, 2, 2]] [] False False False =
     Inr ((ex_edmd (Some ex_standardizer))\<lparr>edmd_A := [[4, 3, 2]], edmd_B := [[[1, 1, 1]]]\<rparr>)"
    by (simp add: fit_def ex_edmd_def init_edmd_def fit_coefs_def std_coefs_def
          ex_standardizer_def slice_cols_def)
  from fit_applies_transform[OF h] show ?thesis
    using h by (simp add: ex_standardizer_def)
qed

text \<open>
  C8 as stated fails: with the halving standardizer and raw coefficients
  \<open>[8, 6, 4, 2, 2, 2]\<close>, \<open>fit\<close> stores \<open>A = [[4, 3, 2]]\<close>, the forward transform of the
  raw coefficients, where slicing the inverse transform would give \<open>[[16, 12, 8]]\<close>.
\<close>

theorem fit_inverse_transform_counterexample:
  "fit (ex_edmd (Some ex_standardizer)) [[8, 6, 4, 2, 2, 2]] [] False False False =
     Inr ((ex_edmd (Some ex_standardizer))\<lparr>edmd_A := [[4, 3, 2]], edmd_B := [[[1, 1, 1]]]\<rparr>) \<and>
   slice_cols (inverse_transform ex_standardizer
                 (edmd_optimizer (ex_edmd (Some ex_standardizer)) [[8, 6, 4, 2, 2, 2]] []))
              0 (edmd_n_lift (ex_edmd (Some ex_standardizer))) = [[16, 12, 8]] \<and>
   [[4, 3, 2]] \<noteq> [[16, 12, 8 :: real]]"
  by (simp add: fit_def ex_edmd_def init_edmd_def fit_coefs_def std_coefs_def
        ex_standardizer_def slice_cols_def)

section \<open>Properties of reduce\_mdl and lift\<close>

text \<open>
  C1. On the damped point mass the output map reads coordinates \<open>0\<close> and \<open>1\<close>, so
  both belong to the closure. \<open>reduce_mdl\<close> returns \<open>obs_in_use = [1]\<close>: the first pass
  replaces \<open>in_use\<close> by the nonzero columns of \<open>A[in_use, :]\<close> without keeping the
  coordinates already in use, position has no nonzero column, and the loop stops because
  the size did not grow. The reduced output map \<open>[[0], [1]]\<close> predicts position as
  constantly zero.
\<close>

theorem reduce_mdl_drops_used_coordinate:
  "nonzero_cols (edmd_C ex_damped) = [0, 1] \<and>
   map_sum id (\<lambda>s. (edmd_A s, edmd_B s, edmd_C s, n_lift_reduced s, obs_in_use s))
     (reduce_mdl ex_damped) = Inr ([[-1]], [[[1]]], [[0], [1]], Some 1, Some [1])"
  by code_simp


lemma shape3_Some:
  assumes "shape3 z = Some (K, T, nl)"
  shows "length z = K" and "\<And>k. k < K \<Longrightarrow> length (z ! k) = T"
    and "\<And>k t. k < K \<Longrightarrow> t < T \<Longrightarrow> length (z ! k ! t) = nl"
proof -
  from assms obtain t0 z' r0 t0' where z: "z = t0 # z'" and t0: "t0 = r0 # t0'"
    and all: "list_all (\<lambda>t'. length t' = length t0 \<and> list_all (\<lambda>r'. length r' = length r0) t') z"
    and K: "K = length z" and T: "T = length t0" and nl: "nl = length r0"
    by (auto simp: shape3_def split: list.splits if_splits)
  show "length z = K" using K by simp
  show "length (z ! k) = T" if "k < K" for k
    using all that K T by (simp add: list_all_length)
  show "length (z ! k ! t) = nl" if "k < K" "t < T" for k t
    using all that K T nl by (simp add: list_all_length)
qed

lemma lift_round_shape:
  assumes "length zb = K" "length z = K" "length u = K"
    and "\<And>k. k < K \<Longrightarrow> length (zb ! k) = T"
    and "\<And>k. k < K \<Longrightarrow> length (z ! k) = T"
    and "\<And>k. k < K \<Longrightarrow> length (u ! k) = T"
  shows "length (lift_round z u zb ii) = K"
    and "\<And>k. k < K \<Longrightarrow> length (lift_round z u zb ii ! k) = T"
    and "\<And>k t. k < K \<Longrightarrow> t < T \<Longrightarrow>
           lift_round z u zb ii ! k ! t = zb ! k ! t @ map (\<lambda>v. v * u ! k ! t ! ii) (z ! k ! t)"
  using assms by (simp_all add: lift_round_def)

lemma foldl_lift_round:
  assumes "length z = K" "length u = K"
    and "\<And>k. k < K \<Longrightarrow> length (z ! k) = T"
    and "\<And>k. k < K \<Longrightarrow> length (u ! k) = T"
  shows "length (foldl (lift_round z u) z [0..<m]) = K \<and>
         (\<forall>k < K. length (foldl (lift_round z u) z [0..<m] ! k) = T \<and>
            (\<forall>t < T. foldl (lift_round z u) z [0..<m] ! k ! t =
               z ! k ! t @ concat (map (\<lambda>ii. map (\<lambda>v. v * u ! k ! t ! ii) (z ! k ! t)) [0..<m])))"
proof (induction m)
  case 0
  show ?case using assms by simp
next
  case (Suc m)
  let ?zb = "foldl (lift_round z u) z [0..<m]"
  from Suc have len: "length ?zb = K" and lenk: "\<And>k. k < K \<Longrightarrow> length (?zb ! k) = T"
    and nth: "\<And>k t. k < K \<Longrightarrow> t < T \<Longrightarrow> ?zb ! k ! t =
               z ! k ! t @ concat (map (\<lambda>ii. map (\<lambda>v. v * u ! k ! t ! ii) (z ! k ! t)) [0..<m])"
    by auto
  have step: "foldl (lift_round z u) z [0..<Suc m] = lift_round z u ?zb m" by simp
  note R = lift_round_shape[where ii = m, OF len assms(1,2) lenk assms(3,4)]
  show ?case
    unfolding step using R nth by simp
qed

lemma concat_blocks_length:
  "(\<And>ii. ii < m \<Longrightarrow> length (f ii) = nl) \<Longrightarrow> length (concat (map f [0..<m])) = m * nl"
  by (induction m) simp_all

lemma concat_blocks_nth:
  "(\<And>ii. ii < m \<Longrightarrow> length (f ii) = nl) \<Longrightarrow> i < m \<Longrightarrow>
   take nl (drop (i * nl) (concat (map f [0..<m]))) = f i"
proof (induction m)
  case 0
  then show ?case by simp
next
  case (Suc m)
  have L: "length (concat (map f [0..<m])) = m * nl"
    using Suc.prems(1) by (intro concat_blocks_length) simp
  show ?case
  proof (cases "i < m")
    case True
    then have "Suc i \<le> m" by simp
    then have "Suc i * nl \<le> m * nl" by (rule mult_le_mono1)
    then have le: "i * nl + nl \<le> m * nl" by simp
    have "take nl (drop (i * nl) (concat (map f [0..<Suc m]))) =
          take nl (drop (i * nl) (concat (map f [0..<m])))"
      using le L by simp
    also have "\<dots> = f i" using Suc.IH Suc.prems(1) True by simp
    finally show ?thesis .
  next
    case False
    with Suc.prems(2) have "i = m" by simp
    then show ?thesis using L Suc.prems(1) by simp
  qed
qed

text \<open>
  C5. When the plain lift \<open>z\<close> has shape \<open>(K, T, n_lift)\<close> and the control array has shape
  \<open>(K, T, mu)\<close> with at least \<open>m\<close> channels, \<open>lift\<close> returns an array of the same first two
  dimensions whose vectors have length \<open>(m + 1) * n_lift\<close>; the first block of width
  \<open>n_lift\<close> is the plain lift, and the block at offset \<open>(i + 1) * n_lift\<close>, for \<open>i < m\<close>,
  is the plain lift multiplied entry by entry with control channel \<open>i\<close>.
\<close>

theorem lift_bilinear_blocks:
  assumes "plain_lift s x u = Inr z"
    and "shape3 z = Some (K, T, n_lift)"
    and "shape3 u = Some (K, T, mu)"
    and "edmd_m s \<le> mu"
  shows "\<exists>zb. lift s x u = Inr zb \<and> length zb = K \<and>
           (\<forall>k < K. length (zb ! k) = T \<and>
              (\<forall>t < T. length (zb ! k ! t) = (edmd_m s + 1) * n_lift \<and>
                 take n_lift (zb ! k ! t) = z ! k ! t \<and>
                 (\<forall>i < edmd_m s.
                    take n_lift (drop ((i + 1) * n_lift) (zb ! k ! t)) =
                      map (\<lambda>v. v * u ! k ! t ! i) (z ! k ! t))))"
proof -
  let ?zb = "foldl (lift_round z u) z [0..<edmd_m s]"
  have L: "lift s x u = Inr ?zb"
    using assms by (simp add: lift_def)
  note Z = shape3_Some[OF assms(2)] and U = shape3_Some[OF assms(3)]
  from foldl_lift_round[OF Z(1) U(1) Z(2) U(2), of "edmd_m s"]
  have len: "length ?zb = K" and lenk: "\<And>k. k < K \<Longrightarrow> length (?zb ! k) = T"
    and nth: "\<And>k t. k < K \<Longrightarrow> t < T \<Longrightarrow> ?zb ! k ! t =
       z ! k ! t @ concat (map (\<lambda>ii. map (\<lambda>v. v * u ! k ! t ! ii) (z ! k ! t)) [0..<edmd_m s])"
    by auto
  have "\<forall>k < K. length (?zb ! k) = T \<and>
              (\<forall>t < T. length (?zb ! k ! t) = (edmd_m s + 1) * n_lift \<and>
                 take n_lift (?zb ! k ! t) = z ! k ! t \<and>
                 (\<forall>i < edmd_m s.
                    take n_lift (drop ((i + 1) * n_lift) (?zb ! k ! t)) =
                      map (\<lambda>v. v * u ! k ! t ! i) (z ! k ! t)))"
  proof (intro allI impI conjI)
    fix k assume k: "k < K"
    show "length (?zb ! k) = T" using lenk[OF k] .
  next
    fix k t assume k: "k < K" and t: "t < T"
    let ?f = "\<lambda>ii. map (\<lambda>v. v * u ! k ! t ! ii) (z ! k ! t)"
    have zl: "length (z ! k ! t) = n_lift" using Z(3)[OF k t] .
    have fl: "\<And>ii. ii < edmd_m s \<Longrightarrow> length (?f ii) = n_lift" using zl by simp
    have cl: "length (concat (map ?f [0..<edmd_m s])) = edmd_m s * n_lift"
      by (rule concat_blocks_length[OF fl])
    show "length (?zb ! k ! t) = (edmd_m s + 1) * n_lift"
      using nth[OF k t] zl cl by simp
    show "take n_lift (?zb ! k ! t) = z ! k ! t"
      using nth[OF k t] zl by simp
    fix i assume i: "i < edmd_m s"
    have "take n_lift (drop ((i + 1) * n_lift) (?zb ! k ! t)) =
          take n_lift (drop (i * n_lift) (concat (map ?f [0..<edmd_m s])))"
      using nth[OF k t] zl by simp
    also have "\<dots> = ?f i" by (rule concat_blocks_nth[OF fl i])
    finally show "take n_lift (drop ((i + 1) * n_lift) (?zb ! k ! t)) = ?f i" .
  qed
  with L len show ?thesis by blast
qed


theorem lift_bilinear_blocks_witness:
  "plain_lift (ex_edmd None) [[[1, 2], [3, 4], [5, 6]]] [[[10], [20]]] = Inr [[[1, 2], [3, 4]]] \<and>
   shape3 [[[1, 2], [3, 4]]] = Some (1, 2, 2) \<and> shape3 [[[10], [20]]] = Some (1, 2, 1) \<and>
   edmd_m (ex_edmd None) = 1 \<and>
   lift (ex_edmd None) [[[1, 2], [3, 4], [5, 6]]] [[[10], [20]]] =
     Inr [[[1, 2, 10, 20], [3, 4, 60, 80]]]"
proof -
  have h1: "plain_lift (ex_edmd None) [[[1, 2], [3, 4], [5, 6]]] [[[10], [20]]] =
              Inr [[[1, 2], [3, 4]]]"
    by (simp add: plain_lift_def ex_edmd_def init_edmd_def)
  have h2: "shape3 [[[1, 2], [3, 4]]] = Some (1, 2, 2)" by (simp add: shape3_def)
  have h3: "shape3 [[[10], [20]]] = Some (1, 2, 1)" by (simp add: shape3_def)
  have m1: "edmd_m (ex_edmd None) = 1" by (simp add: ex_edmd_def init_edmd_def)
  have h4: "edmd_m (ex_edmd None) \<le> 1" by (simp add: m1)
  have h5: "lift (ex_edmd None) [[[1, 2], [3, 4], [5, 6]]] [[[10], [20]]] =
     Inr [[[1, 2, 10, 20], [3, 4, 60, 80]]]"
    by (simp add: lift_def h1 h2 h3 m1 lift_round_def)
  from lift_bilinear_blocks[OF h1 h2 h3 h4] h1 h2 h3 h5 m1 show ?thesis
    by simp
qed

lemma append_B_kin_isl:
  "isl (append_B_kin n n_lift c coefs B iis) = isl (append_B_kin n n_lift c coefs D iis)"
  by (induction iis arbitrary: B D) (auto split: sum.splits)

lemma fit_fields:
  assumes "fit s X y cv ok foc = Inr s'"
  shows "edmd_n s' = edmd_n s" "edmd_m s' = edmd_m s" "edmd_n_lift s' = edmd_n_lift s"
    "edmd_cv s' = edmd_cv s" "edmd_optimizer s' = edmd_optimizer s"
    "edmd_standardizer s' = edmd_standardizer s" "edmd_C s' = edmd_C s"
  using fit_Inr[OF assms] by auto

lemma fit_success_indep:
  assumes "fit s X y cv ok foc = Inr s'"
    and "edmd_n t = edmd_n s" "edmd_m t = edmd_m s" "edmd_n_lift t = edmd_n_lift s"
    and "edmd_cv t = edmd_cv s" "edmd_optimizer t = edmd_optimizer s"
    and "edmd_standardizer t = edmd_standardizer s"
  shows "\<exists>t'. fit t X y cv ok foc = Inr t'"
proof (cases ok)
  case False
  with assms show ?thesis
    by (auto simp: fit_def Let_def fit_coefs_def std_coefs_def split: sum.splits if_splits)
next
  case True
  from assms(1) True have ft: "fit s X y cv True foc = Inr s'" by simp
  have "append_B_kin (edmd_n s) (edmd_n_lift s) (of_bool foc)
       (std_coefs s (projr (fit_coefs s X (map (drop (edmd_n s div 2 + of_bool foc)) y) cv)))
       (edmd_B s) [0..<edmd_m s] = Inr (edmd_B s')"
    by (rule fit_override_Inr(2)[OF ft])
  then have "isl (append_B_kin (edmd_n s) (edmd_n_lift s) (of_bool foc)
       (std_coefs s (projr (fit_coefs s X (map (drop (edmd_n s div 2 + of_bool foc)) y) cv)))
       (edmd_B t) [0..<edmd_m s]) = False"
    using append_B_kin_isl[of "edmd_n s" "edmd_n_lift s" "of_bool foc" _ "edmd_B t" "[0..<edmd_m s]" "edmd_B s"]
    by simp
  then obtain D where D: "append_B_kin (edmd_n s) (edmd_n_lift s) (of_bool foc)
       (std_coefs s (projr (fit_coefs s X (map (drop (edmd_n s div 2 + of_bool foc)) y) cv)))
       (edmd_B t) [0..<edmd_m s] = Inr D"
    by (cases "append_B_kin (edmd_n s) (edmd_n_lift s) (of_bool foc)
       (std_coefs s (projr (fit_coefs s X (map (drop (edmd_n s div 2 + of_bool foc)) y) cv)))
       (edmd_B t) [0..<edmd_m s]") auto
  have sc: "std_coefs t = std_coefs s" "fit_coefs t = fit_coefs s"
    using assms by (auto simp: std_coefs_def fit_coefs_def fun_eq_iff)
  from assms(1) True D show ?thesis
    by (auto simp: fit_def Let_def sc assms(2-4) split: sum.splits if_splits)
qed

lemma expand_B_append:
  "\<forall>ii \<in> set iis. ii < length B1 \<Longrightarrow> expand_B (B1 @ B2) iu iis = expand_B B1 iu iis"
  by (induction iis arbitrary: iu) (auto simp: nth_append split: sum.splits)

lemma reduce_step_append:
  "m \<le> length B1 \<Longrightarrow> reduce_step A (B1 @ B2) m iu = reduce_step A B1 m iu"
  by (simp add: reduce_step_def expand_B_append split: sum.splits)

lemma reduce_while_append:
  "m \<le> length B1 \<Longrightarrow> reduce_while A (B1 @ B2) m k iu = reduce_while A B1 m k iu"
proof (induction A B1 m k iu rule: reduce_while.induct)
  case (1 A B m n_obs_used in_use)
  show ?case
  proof (cases "n_obs_used < length in_use")
    case False
    then show ?thesis by simp
  next
    case True
    note st = reduce_step_append[OF "1.prems", of A B2 in_use]
    show ?thesis
    proof (cases "reduce_step A B m in_use")
      case (Inl e)
      with True st show ?thesis by simp
    next
      case (Inr iu')
      from "1.IH"[OF True Inr "1.prems"] True st Inr show ?thesis by simp
    qed
  qed
qed

text \<open>
  C10. \<open>fit\<close> appends to \<open>B\<close> without clearing it. Starting from the constructor's empty
  \<open>B\<close>, after a second \<open>fit\<close> the list has length \<open>2m\<close>, its first \<open>m\<close> entries are still
  the matrices of the first fit, the second fit's matrices follow them, \<open>A\<close> is the second
  fit's; the closure loop of \<open>reduce_mdl\<close>, which reads \<open>B[0..m-1]\<close>, runs on the first
  fit's matrices.
\<close>

theorem fit_twice_keeps_first_B:
  assumes "edmd_B s0 = []"
    and "fit s0 X1 y1 cv1 ok1 foc1 = Inr s1"
    and "fit s1 X2 y2 cv2 ok2 foc2 = Inr s2"
  shows "length (edmd_B s1) = edmd_m s0 \<and> length (edmd_B s2) = 2 * edmd_m s0 \<and>
         take (edmd_m s0) (edmd_B s2) = edmd_B s1 \<and>
         (\<exists>t. fit s0 X2 y2 cv2 ok2 foc2 = Inr t \<and> edmd_A s2 = edmd_A t \<and>
              drop (edmd_m s0) (edmd_B s2) = edmd_B t) \<and>
         reduce_while (edmd_A s2) (edmd_B s2) (edmd_m s2) 0 (np_unique (nonzero_cols (edmd_C s2))) =
         reduce_while (edmd_A s2) (edmd_B s1) (edmd_m s2) 0 (np_unique (nonzero_cols (edmd_C s2)))"
proof -
  note F1 = fit_fields[OF assms(2)]
  from fit_Inr[OF assms(2)] assms(1) have l1: "length (edmd_B s1) = edmd_m s0" by auto
  from fit_Inr[OF assms(3)] obtain raw2 where
    raw2: "fit_coefs s1 X2 (if ok2 then map (drop (edmd_n s1 div 2 + of_bool foc2)) y2 else y2) cv2 = Inr raw2"
    and s2: "s2 = s1\<lparr>edmd_A := (if ok2 then (if foc2 then [replicate (edmd_n_lift s1) 0] else []) @
                                    kin_dyn (edmd_n s1) (edmd_n_lift s1) (of_bool foc2) else []) @
                             slice_cols (std_coefs s1 raw2) 0 (edmd_n_lift s1),
                  edmd_B := edmd_B s1 @
                     map (\<lambda>ii. (if ok2 then np_zeros (edmd_n s1 div 2 + of_bool foc2) (edmd_n_lift s1) else []) @
                               slice_cols (std_coefs s1 raw2) (edmd_n_lift s1 * (ii + 1)) (edmd_n_lift s1 * (ii + 2)))
                         [0..<edmd_m s1]\<rparr>"
    by blast
  have l2: "length (edmd_B s2) = 2 * edmd_m s0" using s2 l1 F1 by simp
  have tk: "take (edmd_m s0) (edmd_B s2) = edmd_B s1" using s2 l1 by simp
  from fit_success_indep[OF assms(3), of s0] F1 obtain t where t: "fit s0 X2 y2 cv2 ok2 foc2 = Inr t"
    by auto
  have sc: "std_coefs s1 = std_coefs s0" "fit_coefs s1 = fit_coefs s0"
    using F1 by (auto simp: std_coefs_def fit_coefs_def fun_eq_iff)
  from fit_Inr[OF t] raw2 have
    t_eq: "t = s0\<lparr>edmd_A := (if ok2 then (if foc2 then [replicate (edmd_n_lift s0) 0] else []) @
                                    kin_dyn (edmd_n s0) (edmd_n_lift s0) (of_bool foc2) else []) @
                             slice_cols (std_coefs s0 raw2) 0 (edmd_n_lift s0),
                  edmd_B := edmd_B s0 @
                     map (\<lambda>ii. (if ok2 then np_zeros (edmd_n s0 div 2 + of_bool foc2) (edmd_n_lift s0) else []) @
                               slice_cols (std_coefs s0 raw2) (edmd_n_lift s0 * (ii + 1)) (edmd_n_lift s0 * (ii + 2)))
                         [0..<edmd_m s0]\<rparr>"
    by (auto simp: sc F1)
  have "edmd_A s2 = edmd_A t" by (simp add: s2 t_eq sc F1)
  moreover have "drop (edmd_m s0) (edmd_B s2) = edmd_B t"
    using l1 by (simp add: s2 t_eq sc F1 assms(1))
  moreover have "reduce_while (edmd_A s2) (edmd_B s2) (edmd_m s2) 0 (np_unique (nonzero_cols (edmd_C s2))) =
         reduce_while (edmd_A s2) (edmd_B s1) (edmd_m s2) 0 (np_unique (nonzero_cols (edmd_C s2)))"
  proof -
    have m2: "edmd_m s2 \<le> length (edmd_B s1)" using l1 F1 by (simp add: s2)
    have B2: "edmd_B s2 = edmd_B s1 @ drop (edmd_m s0) (edmd_B s2)"
      using tk by (metis append_take_drop_id)
    show ?thesis
      by (subst B2) (rule reduce_while_append[OF m2])
  qed
  ultimately show ?thesis using l1 l2 tk t by blast
qed

theorem fit_twice_keeps_first_B_witness:
  "edmd_B (ex_edmd None) = [] \<and>
   fit (ex_edmd None) [[1, 2, 3, 4, 5, 6]] [] False False False =
     Inr ((ex_edmd None)\<lparr>edmd_A := [[1, 2, 3]], edmd_B := [[[4, 5, 6]]]\<rparr>) \<and>
   fit ((ex_edmd None)\<lparr>edmd_A := [[1, 2, 3]], edmd_B := [[[4, 5, 6]]]\<rparr>)
       [[7, 8, 9, 10, 11, 12]] [] False False False =
     Inr ((ex_edmd None)\<lparr>edmd_A := [[7, 8, 9]], edmd_B := [[[4, 5, 6]], [[10, 11, 12]]]\<rparr>) \<and>
   take 1 [[[4, 5, 6]], [[10, 11, 12 :: real]]] = [[[4, 5, 6]]]"
proof -
  have h0: "edmd_B (ex_edmd None) = []" by (simp add: ex_edmd_def init_edmd_def)
  have h1: "fit (ex_edmd None) [[1, 2, 3, 4, 5, 6]] [] False False False =
     Inr ((ex_edmd None)\<lparr>edmd_A := [[1, 2, 3]], edmd_B := [[[4, 5, 6]]]\<rparr>)"
    by (simp add: fit_def ex_edmd_def init_edmd_def fit_coefs_def std_coefs_def slice_cols_def)
  have h2: "fit ((ex_edmd None)\<lparr>edmd_A := [[1, 2, 3]], edmd_B := [[[4, 5, 6]]]\<rparr>)
       [[7, 8, 9, 10, 11, 12]] [] False False False =
     Inr ((ex_edmd None)\<lparr>edmd_A := [[7, 8, 9]], edmd_B := [[[4, 5, 6]], [[10, 11, 12]]]\<rparr>)"
    by (simp add: fit_def ex_edmd_def init_edmd_def fit_coefs_def std_coefs_def slice_cols_def)
  from fit_twice_keeps_first_B[OF h0 h1 h2] h0 h1 h2 show ?thesis by simp
qed

section \<open>Properties of the nonlinear MPC controller\<close>

lemma err_bind_Inr_iff: "err_bind x f = Inr y \<longleftrightarrow> (\<exists>v. x = Inr v \<and> f v = Inr y)"
  by (cases x) (simp_all add: err_bind_def)

lemma update_objective_fields:
  "update_objective s zi ui = Inr s' \<Longrightarrow> \<exists>q. s' = s\<lparr>osqp_q := q\<rparr>"
  unfolding update_objective_def err_bind_Inr_iff by blast

lemma err_bind_Inr_E:
  assumes "err_bind x f = Inr y"
  obtains v where "x = Inr v" "f v = Inr y"
  using assms by (auto simp: err_bind_Inr_iff)

lemma construct_constraint_vecs_fields:
  assumes "construct_constraint_vecs s z zd zi ui r = Inr s'"
  shows "\<exists>l u. s' = s\<lparr>osqp_l := l, osqp_u := u\<rparr>"
  using assms unfolding construct_constraint_vecs_def Let_def
  by (auto elim!: err_bind_Inr_E split: if_splits prod.splits)

lemma update_constraint_matrix_data_fields:
  "update_constraint_matrix_data s A B = Inr s' \<Longrightarrow> \<exists>d. s' = s\<lparr>osqp_A_data := Some d\<rparr>"
  unfolding update_constraint_matrix_data_def err_bind_Inr_iff
  by (auto simp: err_bind_Inr_iff split: option.splits)

lemma solve_mpc_Inr:
  assumes "solve_mpc s = Inr (dz, du, s')"
  shows "\<exists>p Ax p'. prob s = Some p \<and> osqp_A_data s = Some Ax \<and>
           osqp_solve s p (osqp_q s) Ax (osqp_l s) (osqp_u s) = (res_x s', p') \<and>
           s' = s\<lparr>prob := Some p', res_x := res_x s'\<rparr> \<and>
           length (res_x s') = (mpc_N s + 1) * mpc_nx s + mpc_N s * mpc_nu s \<and>
           dz = reshape_F (mpc_nx s) (mpc_N s + 1) (take ((mpc_N s + 1) * mpc_nx s) (res_x s')) \<and>
           du = reshape_F (mpc_nu s) (mpc_N s) (drop ((mpc_N s + 1) * mpc_nx s) (res_x s'))"
proof -
  from assms obtain p Ax where p: "prob s = Some p" "osqp_A_data s = Some Ax"
    by (auto simp: solve_mpc_def split: option.splits)
  obtain x p' where sol: "osqp_solve s p (osqp_q s) Ax (osqp_l s) (osqp_u s) = (x, p')"
    by (cases "osqp_solve s p (osqp_q s) Ax (osqp_l s) (osqp_u s)")
  from assms p sol have
    l1: "length (take ((mpc_N s + 1) * mpc_nx s) x) = mpc_nx s * (mpc_N s + 1)" and
    l2: "length (drop ((mpc_N s + 1) * mpc_nx s) x) = mpc_nu s * mpc_N s" and
    dz: "dz = reshape_F (mpc_nx s) (mpc_N s + 1) (take ((mpc_N s + 1) * mpc_nx s) x)" and
    du: "du = reshape_F (mpc_nu s) (mpc_N s) (drop ((mpc_N s + 1) * mpc_nx s) x)" and
    s': "s' = s\<lparr>prob := Some p', res_x := x\<rparr>"
    by (auto simp: solve_mpc_def Let_def split: if_splits)
  from l1 have "(mpc_N s + 1) * mpc_nx s \<le> length x"
    by (simp add: min_def mult.commute split: if_splits)
  with l2 have len: "length x = (mpc_N s + 1) * mpc_nx s + mpc_N s * mpc_nu s"
    by (simp add: mult.commute)
  have rx: "res_x s' = x" using s' by simp
  have "s' = s\<lparr>prob := Some p', res_x := res_x s'\<rparr>"
    by (subst rx) (rule s')
  moreover have "osqp_solve s p (osqp_q s) Ax (osqp_l s) (osqp_u s) = (res_x s', p')"
    by (subst rx) (rule sol)
  moreover have "length (res_x s') = (mpc_N s + 1) * mpc_nx s + mpc_N s * mpc_nu s"
    by (subst rx) (rule len)
  moreover have "dz = reshape_F (mpc_nx s) (mpc_N s + 1) (take ((mpc_N s + 1) * mpc_nx s) (res_x s'))"
    by (subst rx) (rule dz)
  moreover have "du = reshape_F (mpc_nu s) (mpc_N s) (drop ((mpc_N s + 1) * mpc_nx s) (res_x s'))"
    by (subst rx) (rule du)
  ultimately show ?thesis using p by blast
qed


lemma madd_Inr:
  assumes "madd X Y = Inr Z"
  shows "length Y = length X" and "length Z = length X"
    and "\<And>t. t < length X \<Longrightarrow> length (Y ! t) = length (X ! t)"
    and "\<And>t. t < length X \<Longrightarrow> length (Z ! t) = length (X ! t)"
    and "\<And>t i. t < length X \<Longrightarrow> i < length (X ! t) \<Longrightarrow> Z ! t ! i = X ! t ! i + Y ! t ! i"
proof -
  from assms have len: "length X = length Y"
    and rows: "list_all2 (\<lambda>a b. length a = length b) X Y"
    and Z: "Z = map2 (map2 (+)) X Y"
    by (auto simp: madd_def split: if_splits)
  show "length Y = length X" using len by simp
  show "length Z = length X" using len Z by simp
  show r: "length (Y ! t) = length (X ! t)" if "t < length X" for t
    using rows that by (simp add: list_all2_conv_all_nth)
  show "length (Z ! t) = length (X ! t)" if "t < length X" for t
    using that len Z r[OF that] by simp
  show "Z ! t ! i = X ! t ! i + Y ! t ! i" if "t < length X" "i < length (X ! t)" for t i
    using that len Z r[OF that(1)] by simp
qed

lemma np_T_shape:
  "length (np_T r c M) = c" "j < c \<Longrightarrow> length (np_T r c M ! j) = r"
  "j < c \<Longrightarrow> i < r \<Longrightarrow> np_T r c M ! j ! i = M ! i ! j"
  by (simp_all add: np_T_def)

lemma reshape_F_nth: "i < r \<Longrightarrow> j < c \<Longrightarrow> reshape_F r c xs ! i ! j = xs ! (j * r + i)"
  by (simp add: reshape_F_def)

lemma block_index_less: "t < T \<Longrightarrow> i < n \<Longrightarrow> t * n + i < T * (n::nat)"
proof -
  assume t: "t < T" and i: "i < n"
  have "t * n + i < t * n + n" using i by simp
  also have "\<dots> = Suc t * n" by simp
  also have "\<dots> \<le> T * n" using t by (intro mult_le_mono1) simp
  finally show ?thesis .
qed

lemma stc_iteration_Inr:
  assumes "stc_iteration s z = Inr s'"
  shows "\<exists>q l u Ax p p' x cz cu.
           prob s = Some p \<and> osqp_solve s p q Ax l u = (x, p') \<and>
           length x = (mpc_N s + 1) * mpc_nx s + mpc_N s * mpc_nu s \<and>
           madd (cur_z s) (np_T (mpc_nx s) (mpc_N s + 1)
              (reshape_F (mpc_nx s) (mpc_N s + 1) (take ((mpc_N s + 1) * mpc_nx s) x))) = Inr cz \<and>
           madd (cur_u s) (np_T (mpc_nu s) (mpc_N s)
              (reshape_F (mpc_nu s) (mpc_N s) (drop ((mpc_N s + 1) * mpc_nx s) x))) = Inr cu \<and>
           s' = s\<lparr>prob := Some p', res_x := x, cur_z := cz, cur_z_dtype := float64, cur_u := cu,
                  comp_time := comp_time s @ [elapsed s (length (comp_time s))],
                  x_iter := x_iter s @ [np_T (mpc_N s + 1) (mpc_nx s) cz],
                  u_iter := u_iter s @ [np_T (mpc_N s) (mpc_nu s) cu],
                  osqp_q := q, osqp_l := l, osqp_u := u, osqp_A_data := Some Ax\<rparr>"
proof -
  define lins where "lins = map (\<lambda>(za, zn, u). get_linearization s za zn u)
                     (zip (butlast (cur_z s)) (zip (tl (cur_z s)) (cur_u s)))"
  from assms obtain s1 s2 s3 dz du s4 cz cu where
    1: "update_objective s (cur_z s) (cur_u s) = Inr s1" and
    2: "construct_constraint_vecs s1 z (cur_z_dtype s) (cur_z s) (cur_u s) (map (snd \<circ> snd) lins) = Inr s2" and
    3: "update_constraint_matrix_data s2 (map fst lins) (map (fst \<circ> snd) lins) = Inr s3" and
    4: "solve_mpc s3 = Inr (dz, du, s4)" and
    5: "madd (cur_z s) (np_T (mpc_nx s) (mpc_N s + 1) dz) = Inr cz" and
    6: "madd (cur_u s) (np_T (mpc_nu s) (mpc_N s) du) = Inr cu" and
    7: "s' = s4\<lparr>cur_z := cz, cur_z_dtype := float64, cur_u := cu,
                   comp_time := comp_time s4 @ [elapsed s4 (length (comp_time s4))],
                   x_iter := x_iter s4 @ [np_T (mpc_N s + 1) (mpc_nx s) cz],
                   u_iter := u_iter s4 @ [np_T (mpc_N s) (mpc_nu s) cu]\<rparr>"
    unfolding stc_iteration_def Let_def lins_def[symmetric]
    by (auto elim!: err_bind_Inr_E split: prod.splits)
  from update_objective_fields[OF 1] obtain q where s1: "s1 = s\<lparr>osqp_q := q\<rparr>" by blast
  from construct_constraint_vecs_fields[OF 2] obtain l u where
    s2: "s2 = s1\<lparr>osqp_l := l, osqp_u := u\<rparr>" by blast
  from update_constraint_matrix_data_fields[OF 3] obtain Ax where
    s3: "s3 = s2\<lparr>osqp_A_data := Some Ax\<rparr>" by blast
  from solve_mpc_Inr[OF 4] obtain p Ax' p' where
    p: "prob s3 = Some p" and Ax': "osqp_A_data s3 = Some Ax'" and
    sol: "osqp_solve s3 p (osqp_q s3) Ax' (osqp_l s3) (osqp_u s3) = (res_x s4, p')" and
    s4: "s4 = s3\<lparr>prob := Some p', res_x := res_x s4\<rparr>" and
    len: "length (res_x s4) = (mpc_N s3 + 1) * mpc_nx s3 + mpc_N s3 * mpc_nu s3" and
    dz: "dz = reshape_F (mpc_nx s3) (mpc_N s3 + 1) (take ((mpc_N s3 + 1) * mpc_nx s3) (res_x s4))" and
    du: "du = reshape_F (mpc_nu s3) (mpc_N s3) (drop ((mpc_N s3 + 1) * mpc_nx s3) (res_x s4))"
    by blast
  define x where "x = res_x s4"
  have s3': "s3 = s\<lparr>osqp_q := q, osqp_l := l, osqp_u := u, osqp_A_data := Some Ax\<rparr>"
    by (simp add: s3 s2 s1)
  have AxAx: "Ax' = Ax" using Ax' by (simp add: s3')
  have s4': "s4 = s\<lparr>osqp_q := q, osqp_l := l, osqp_u := u, osqp_A_data := Some Ax,
                     prob := Some p', res_x := x\<rparr>"
    by (subst s4) (simp add: s3' x_def)
  have "prob s = Some p" using p by (simp add: s3')
  moreover have "osqp_solve s p q Ax l u = (x, p')"
    using sol by (simp add: s3' AxAx x_def)
  moreover have "length x = (mpc_N s + 1) * mpc_nx s + mpc_N s * mpc_nu s"
    using len by (simp add: s3' x_def)
  moreover have "madd (cur_z s) (np_T (mpc_nx s) (mpc_N s + 1)
              (reshape_F (mpc_nx s) (mpc_N s + 1) (take ((mpc_N s + 1) * mpc_nx s) x))) = Inr cz"
    using 5 by (simp add: dz s3' x_def)
  moreover have "madd (cur_u s) (np_T (mpc_nu s) (mpc_N s)
              (reshape_F (mpc_nu s) (mpc_N s) (drop ((mpc_N s + 1) * mpc_nx s) x))) = Inr cu"
    using 6 by (simp add: du s3' x_def)
  moreover have "s' = s\<lparr>prob := Some p', res_x := x, cur_z := cz, cur_z_dtype := float64, cur_u := cu,
                  comp_time := comp_time s @ [elapsed s (length (comp_time s))],
                  x_iter := x_iter s @ [np_T (mpc_N s + 1) (mpc_nx s) cz],
                  u_iter := u_iter s @ [np_T (mpc_N s) (mpc_nu s) cu],
                  osqp_q := q, osqp_l := l, osqp_u := u, osqp_A_data := Some Ax\<rparr>"
    by (subst 7) (simp add: s4')
  ultimately show ?thesis by blast
qed


text \<open>
  C7. In every pass of \<open>solve_to_convergence\<close> that completes, the solver is called on the
  QP data of that pass, and its solution vector \<open>res_x\<close> is added to the guess the pass
  started from: entry \<open>(t, i)\<close> of the new state trajectory is the old entry plus
  \<open>res_x[t * nx + i]\<close>, entry \<open>(t, i)\<close> of the new control trajectory is the old entry plus
  \<open>res_x[(N + 1) * nx + t * nu + i]\<close>. The solver's output never replaces the guess.
\<close>

theorem stc_iteration_adds_step:
  assumes "stc_iteration s z = Inr s'"
  shows "(\<exists>p Ax p'. prob s = Some p \<and> osqp_A_data s' = Some Ax \<and>
            osqp_solve s p (osqp_q s') Ax (osqp_l s') (osqp_u s') = (res_x s', p')) \<and>
         length (cur_z s') = mpc_N s + 1 \<and> length (cur_u s') = mpc_N s \<and>
         (\<forall>t < mpc_N s + 1. \<forall>i < mpc_nx s.
            cur_z s' ! t ! i = cur_z s ! t ! i + res_x s' ! (t * mpc_nx s + i)) \<and>
         (\<forall>t < mpc_N s. \<forall>i < mpc_nu s.
            cur_u s' ! t ! i =
              cur_u s ! t ! i + res_x s' ! ((mpc_N s + 1) * mpc_nx s + t * mpc_nu s + i))"
proof -
  let ?N = "mpc_N s" and ?nx = "mpc_nx s" and ?nu = "mpc_nu s"
  from stc_iteration_Inr[OF assms] obtain q l u Ax p p' x cz cu where
    p: "prob s = Some p" and sol: "osqp_solve s p q Ax l u = (x, p')" and
    len: "length x = (?N + 1) * ?nx + ?N * ?nu" and
    cz: "madd (cur_z s) (np_T ?nx (?N + 1) (reshape_F ?nx (?N + 1) (take ((?N + 1) * ?nx) x))) = Inr cz" and
    cu: "madd (cur_u s) (np_T ?nu ?N (reshape_F ?nu ?N (drop ((?N + 1) * ?nx) x))) = Inr cu" and
    s': "s' = s\<lparr>prob := Some p', res_x := x, cur_z := cz, cur_z_dtype := float64, cur_u := cu,
                  comp_time := comp_time s @ [elapsed s (length (comp_time s))],
                  x_iter := x_iter s @ [np_T (?N + 1) ?nx cz],
                  u_iter := u_iter s @ [np_T ?N ?nu cu],
                  osqp_q := q, osqp_l := l, osqp_u := u, osqp_A_data := Some Ax\<rparr>"
    by blast
  have f: "res_x s' = x" "cur_z s' = cz" "cur_u s' = cu" "osqp_q s' = q" "osqp_l s' = l"
    "osqp_u s' = u" "osqp_A_data s' = Some Ax"
    by (simp_all add: s')
  note Z = madd_Inr[OF cz] and U = madd_Inr[OF cu]
  have lz: "length (cur_z s) = ?N + 1" using Z(1) by (simp add: np_T_shape)
  have lu: "length (cur_u s) = ?N" using U(1) by (simp add: np_T_shape)
  have zrow: "length (cur_z s ! t) = ?nx" if "t < ?N + 1" for t
    using Z(3)[of t] that lz by (simp add: np_T_shape)
  have urow: "length (cur_u s ! t) = ?nu" if "t < ?N" for t
    using U(3)[of t] that lu by (simp add: np_T_shape)
  have zval: "cz ! t ! i = cur_z s ! t ! i + x ! (t * ?nx + i)" if t: "t < ?N + 1" and i: "i < ?nx" for t i
  proof -
    have lt: "t * ?nx + i < (?N + 1) * ?nx" by (rule block_index_less[OF t i])
    have "cz ! t ! i = cur_z s ! t ! i +
            np_T ?nx (?N + 1) (reshape_F ?nx (?N + 1) (take ((?N + 1) * ?nx) x)) ! t ! i"
      using Z(5)[of t i] t i lz zrow[OF t] by simp
    also have "np_T ?nx (?N + 1) (reshape_F ?nx (?N + 1) (take ((?N + 1) * ?nx) x)) ! t ! i =
               take ((?N + 1) * ?nx) x ! (t * ?nx + i)"
      using t i by (simp add: np_T_shape reshape_F_nth)
    also have "\<dots> = x ! (t * ?nx + i)" using lt by simp
    finally show ?thesis .
  qed
  have uval: "cu ! t ! i = cur_u s ! t ! i + x ! ((?N + 1) * ?nx + t * ?nu + i)"
    if t: "t < ?N" and i: "i < ?nu" for t i
  proof -
    have lt: "t * ?nu + i < ?N * ?nu" by (rule block_index_less[OF t i])
    have "cu ! t ! i = cur_u s ! t ! i +
            np_T ?nu ?N (reshape_F ?nu ?N (drop ((?N + 1) * ?nx) x)) ! t ! i"
      using U(5)[of t i] t i lu urow[OF t] by simp
    also have "np_T ?nu ?N (reshape_F ?nu ?N (drop ((?N + 1) * ?nx) x)) ! t ! i =
               drop ((?N + 1) * ?nx) x ! (t * ?nu + i)"
      using t i by (simp add: np_T_shape reshape_F_nth)
    also have "\<dots> = x ! ((?N + 1) * ?nx + t * ?nu + i)"
      using lt len by (simp add: add.assoc)
    finally show ?thesis .
  qed
  have "\<exists>p Ax p'. prob s = Some p \<and> osqp_A_data s' = Some Ax \<and>
            osqp_solve s p (osqp_q s') Ax (osqp_l s') (osqp_u s') = (res_x s', p')"
    using p sol by (auto simp: f)
  moreover have "length (cur_z s') = ?N + 1" using Z(2) lz by (simp add: f)
  moreover have "length (cur_u s') = ?N" using U(2) lu by (simp add: f)
  ultimately show ?thesis using zval uval by (simp add: f)
qed

lemma stc_iteration_comp_time:
  assumes "stc_iteration s z = Inr s'"
  shows "length (comp_time s') = length (comp_time s) + 1"
proof -
  from stc_iteration_Inr[OF assms] obtain q l u Ax p' x cz cu where
    s': "s' = s\<lparr>prob := Some p', res_x := x, cur_z := cz, cur_z_dtype := float64, cur_u := cu,
                  comp_time := comp_time s @ [elapsed s (length (comp_time s))],
                  x_iter := x_iter s @ [np_T (mpc_N s + 1) (mpc_nx s) cz],
                  u_iter := u_iter s @ [np_T (mpc_N s) (mpc_nu s) cu],
                  osqp_q := q, osqp_l := l, osqp_u := u, osqp_A_data := Some Ax\<rparr>"
    by blast
  show ?thesis by (subst s') simp
qed

lemma stc_run_comp_time:
  "stc_run z k s = Inr s' \<Longrightarrow> length (comp_time s') = length (comp_time s) + k"
proof (induction k arbitrary: s)
  case 0
  then show ?case by simp
next
  case (Suc k)
  from Suc.prems obtain s1 where 1: "stc_iteration s z = Inr s1" and 2: "stc_run z k s1 = Inr s'"
    by (auto split: sum.splits)
  from Suc.IH[OF 2] stc_iteration_comp_time[OF 1] show ?case by simp
qed

lemma u_change_Suc:
  assumes "stc_iteration s z = Inr s1" and "1 \<le> j"
  shows "u_change z (Suc j) s = u_change z j s1"
proof -
  from assms(2) obtain j' where j: "j = Suc j'" by (cases j) auto
  show ?thesis by (simp add: u_change_def assms(1) j)
qed

lemma u_change_1:
  assumes "stc_iteration s z = Inr s1"
  shows "u_change z 1 s = norm_diff (cur_u s) (cur_u s1)"
  by (simp add: u_change_def assms)

lemma stc_loop_run:
  assumes "stc_loop z eps max_iter iter u_prev s = Inr s'"
  shows "\<exists>d. stc_run z d s = Inr s' \<and>
             (iter \<le> max_iter \<longrightarrow> iter + d \<le> max_iter) \<and>
             (iter = 0 \<and> 0 < max_iter \<longrightarrow> 1 \<le> d) \<and>
             (d = 0 \<and> iter < max_iter \<longrightarrow> iter \<noteq> 0 \<and> norm_diff u_prev (cur_u s) \<le> eps) \<and>
             (0 < d \<longrightarrow> iter = 0 \<or> eps < norm_diff u_prev (cur_u s)) \<and>
             (0 < d \<and> iter + d < max_iter \<longrightarrow> u_change z d s \<le> eps) \<and>
             (\<forall>j. 1 \<le> j \<and> j < d \<longrightarrow> eps < u_change z j s)"
  using assms
proof (induction z eps max_iter iter u_prev s rule: stc_loop.induct)
  case (1 z eps max_iter iter u_prev s)
  note unf = stc_loop.simps[of z eps max_iter iter u_prev s]
  show ?case
  proof (cases "(iter = 0 \<or> norm_diff u_prev (cur_u s) > eps) \<and> iter < max_iter")
    case False
    with "1.prems" have "s' = s" by (simp add: unf)
    then have "stc_run z 0 s = Inr s'" by simp
    moreover from False have "iter \<le> max_iter \<longrightarrow> iter + 0 \<le> max_iter" by simp
    moreover from False have "\<not> (iter = 0 \<and> 0 < max_iter)" by auto
    moreover from False have "iter < max_iter \<longrightarrow> iter \<noteq> 0 \<and> norm_diff u_prev (cur_u s) \<le> eps"
      by auto
    ultimately have "stc_run z 0 s = Inr s' \<and>
             (iter \<le> max_iter \<longrightarrow> iter + 0 \<le> max_iter) \<and>
             (iter = 0 \<and> 0 < max_iter \<longrightarrow> 1 \<le> (0::nat)) \<and>
             ((0::nat) = 0 \<and> iter < max_iter \<longrightarrow> iter \<noteq> 0 \<and> norm_diff u_prev (cur_u s) \<le> eps) \<and>
             (0 < (0::nat) \<longrightarrow> iter = 0 \<or> eps < norm_diff u_prev (cur_u s)) \<and>
             (0 < (0::nat) \<and> iter + 0 < max_iter \<longrightarrow> u_change z 0 s \<le> eps) \<and>
             (\<forall>j. 1 \<le> j \<and> j < (0::nat) \<longrightarrow> eps < u_change z j s)"
      by simp
    then show ?thesis by (rule exI)
  next
    case True
    with "1.prems" have "(case stc_iteration s z of Inl e \<Rightarrow> Inl e
        | Inr s1 \<Rightarrow> stc_loop z eps max_iter (iter + 1) (cur_u s) s1) = Inr s'"
      by (simp add: unf)
    then obtain s1 where it: "stc_iteration s z = Inr s1"
      and rec: "stc_loop z eps max_iter (iter + 1) (cur_u s) s1 = Inr s'"
      by (cases "stc_iteration s z") simp_all
    from "1.IH"[OF True it rec] obtain d where
      run: "stc_run z d s1 = Inr s'" and
      le: "iter + 1 \<le> max_iter \<longrightarrow> iter + 1 + d \<le> max_iter" and
      d0: "d = 0 \<and> iter + 1 < max_iter \<longrightarrow> norm_diff (cur_u s) (cur_u s1) \<le> eps" and
      cont: "0 < d \<longrightarrow> eps < norm_diff (cur_u s) (cur_u s1)" and
      dpos: "0 < d \<and> iter + 1 + d < max_iter \<longrightarrow> u_change z d s1 \<le> eps" and
      before: "\<forall>j. 1 \<le> j \<and> j < d \<longrightarrow> eps < u_change z j s1"
      by auto
    have run': "stc_run z (Suc d) s = Inr s'" using it run by simp
    have last: "iter + Suc d < max_iter \<longrightarrow> u_change z (Suc d) s \<le> eps"
    proof (cases d)
      case 0
      with d0 u_change_1[OF it] show ?thesis by simp
    next
      case (Suc d')
      with dpos u_change_Suc[OF it, of d] show ?thesis by simp
    qed
    have before': "\<forall>j. 1 \<le> j \<and> j < Suc d \<longrightarrow> eps < u_change z j s"
    proof (intro allI impI)
      fix j assume j: "1 \<le> j \<and> j < Suc d"
      show "eps < u_change z j s"
      proof (cases "j = 1")
        case True
        from j True have "0 < d" by simp
        with cont u_change_1[OF it] True show ?thesis by simp
      next
        case False
        with j obtain j' where j': "j = Suc j'" "1 \<le> j'" "j' < d" by (cases j) auto
        with before u_change_Suc[OF it, of j'] show ?thesis by simp
      qed
    qed
    have le': "iter \<le> max_iter \<longrightarrow> iter + Suc d \<le> max_iter" using le True by simp
    have c': "0 < Suc d \<longrightarrow> iter = 0 \<or> eps < norm_diff u_prev (cur_u s)" using True by blast
    have "stc_run z (Suc d) s = Inr s' \<and>
             (iter \<le> max_iter \<longrightarrow> iter + Suc d \<le> max_iter) \<and>
             (iter = 0 \<and> 0 < max_iter \<longrightarrow> 1 \<le> Suc d) \<and>
             (Suc d = 0 \<and> iter < max_iter \<longrightarrow> iter \<noteq> 0 \<and> norm_diff u_prev (cur_u s) \<le> eps) \<and>
             (0 < Suc d \<longrightarrow> iter = 0 \<or> eps < norm_diff u_prev (cur_u s)) \<and>
             (0 < Suc d \<and> iter + Suc d < max_iter \<longrightarrow> u_change z (Suc d) s \<le> eps) \<and>
             (\<forall>j. 1 \<le> j \<and> j < Suc d \<longrightarrow> eps < u_change z j s)"
      using run' le' c' last before' by simp
    then show ?thesis by (rule exI)
  qed
qed

lemmas array_defs = err_bind_def vsub_def tile_def dot_def mat_vec_def col_def has_col_def
  width_def np_cols_def np_T_def reshape_F_def madd_def assign_at_def tail_len_def tail_slice_def
  assign_tail_def hstack_flatten_F_def np_hstack_def np_vstack_def concatenate0_def same_width_def
  kron_def mneg_def mat_mul_def np_zeros_def np_eye_def np_ones_def nonzero_cols_def

lemmas mpc_defs = stage_grad_def linear_objective_def update_objective_def construct_objective_def
  construct_constraint_matrix_def construct_constraint_vecs_def C_data_def state_round_def
  input_round_def cols_in_range_def construct_constraint_matrix_data_def
  update_constraint_matrix_data_def construct_controller_def solve_mpc_def stc_iteration_def

lemma ex_construct: "construct_controller ex_mpc float64 [[0], [0]] [[0]] = Inr ex_ctrl"
  by (simp add: ex_ctrl_def ex_mpc_def mpc_defs array_defs Let_def List.product_def)

lemma ex_iteration1:
  "stc_iteration (ex_ctrl\<lparr>cur_z := [[0], [0]], cur_z_dtype := float64, cur_u := [[0]]\<rparr>) [0] = Inr ex_pass1"
  by (simp add: ex_pass1_def ex_ctrl_def ex_mpc_def mpc_defs array_defs Let_def)

lemma ex_iteration2: "stc_iteration ex_pass1 [0] = Inr ex_pass2"
  by (simp add: ex_pass2_def ex_pass1_def ex_ctrl_def ex_mpc_def mpc_defs array_defs Let_def)


lemma stc_loop_single_pass:
  "stc_loop z eps 1 0 u_prev s = stc_iteration s z"
proof (cases "stc_iteration s z")
  case (Inl e)
  then show ?thesis by (subst stc_loop.simps) simp
next
  case (Inr s1)
  have "stc_loop z eps 1 (0 + 1) (cur_u s) s1 = Inr s1"
    by (subst stc_loop.simps) simp
  with Inr show ?thesis by (subst stc_loop.simps) simp
qed

text \<open>
  C3, amended. The loop of \<open>solve_to_convergence\<close> is a total function (its measure is
  \<open>max_iter - iter\<close>). For \<open>max_iter \<ge> 1\<close>, a call that returns has made \<open>k\<close> passes with
  \<open>1 \<le> k \<le> max_iter\<close>, each recorded in \<open>comp_time\<close>; every pass before the last changed
  the control trajectory by more than \<open>eps\<close> in norm; \<open>k < max_iter\<close> holds exactly when
  the change made by some pass before the \<open>max_iter\<close>-th (then the last pass) is \<open>eps\<close> or
  below, and otherwise \<open>k = max_iter\<close>. A change of \<open>eps\<close> or below made by the
  \<open>max_iter\<close>-th pass itself does not make the passes fewer, which is where the claim
  as stated fails (the example with \<open>max_iter = 2\<close> below). With the default arguments the
  call is a single pass.
\<close>

theorem solve_to_convergence_iterations:
  assumes "1 \<le> max_iter"
    and "solve_to_convergence s z zd z_init_0 u_init_0 eps max_iter = Inr s'"
  shows "\<exists>k. 1 \<le> k \<and> k \<le> max_iter \<and>
              stc_run z k (s\<lparr>cur_z := z_init_0, cur_z_dtype := zd, cur_u := u_init_0\<rparr>) = Inr s' \<and>
              length (comp_time s') = length (comp_time s) + k \<and>
              (\<forall>j. 1 \<le> j \<and> j < k \<longrightarrow>
                 eps < u_change z j (s\<lparr>cur_z := z_init_0, cur_z_dtype := zd, cur_u := u_init_0\<rparr>)) \<and>
              (k < max_iter \<longrightarrow> u_change z k (s\<lparr>cur_z := z_init_0, cur_z_dtype := zd, cur_u := u_init_0\<rparr>) \<le> eps) \<and>
              ((k < max_iter) =
               (\<exists>j. 1 \<le> j \<and> j \<le> k \<and> j < max_iter \<and>
                    u_change z j (s\<lparr>cur_z := z_init_0, cur_z_dtype := zd, cur_u := u_init_0\<rparr>) \<le> eps)) \<and>
              solve_to_convergence_default s z zd z_init_0 u_init_0 =
                stc_iteration (s\<lparr>cur_z := z_init_0, cur_z_dtype := zd, cur_u := u_init_0\<rparr>) z"
proof -
  let ?s1 = "s\<lparr>cur_z := z_init_0, cur_z_dtype := zd, cur_u := u_init_0\<rparr>"
  from assms(2) have "stc_loop z eps max_iter 0 (map (map (\<lambda>_. 0)) u_init_0) ?s1 = Inr s'"
    by (simp add: solve_to_convergence_def)
  from stc_loop_run[OF this] assms(1) obtain k where
    run: "stc_run z k ?s1 = Inr s'" and le: "k \<le> max_iter" and ge: "1 \<le> k" and
    last: "k < max_iter \<longrightarrow> u_change z k ?s1 \<le> eps" and
    before: "\<forall>j. 1 \<le> j \<and> j < k \<longrightarrow> eps < u_change z j ?s1"
    by auto
  have ct: "length (comp_time s') = length (comp_time s) + k"
    using stc_run_comp_time[OF run] by simp
  have iff: "(k < max_iter) =
             (\<exists>j. 1 \<le> j \<and> j \<le> k \<and> j < max_iter \<and> u_change z j ?s1 \<le> eps)"
  proof
    assume "k < max_iter"
    with last ge show "\<exists>j. 1 \<le> j \<and> j \<le> k \<and> j < max_iter \<and> u_change z j ?s1 \<le> eps"
      by (intro exI[of _ k]) simp
  next
    assume "\<exists>j. 1 \<le> j \<and> j \<le> k \<and> j < max_iter \<and> u_change z j ?s1 \<le> eps"
    then obtain j where j: "1 \<le> j" "j \<le> k" "j < max_iter" "u_change z j ?s1 \<le> eps" by blast
    have "\<not> j < k"
    proof
      assume "j < k"
      with before j(1) have "eps < u_change z j ?s1" by blast
      with j(4) show False by simp
    qed
    with j(2) have "j = k" by simp
    with j(3) show "k < max_iter" by simp
  qed
  have dflt: "solve_to_convergence_default s z zd z_init_0 u_init_0 = stc_iteration ?s1 z"
    unfolding solve_to_convergence_default_def solve_to_convergence_def
    by (rule stc_loop_single_pass)
  from ge le run ct before last iff dflt show ?thesis by blast
qed

lemma ex_norm1: "norm_diff [[0]] [[1]] = 1"
  by (simp add: norm_diff_def)

lemma ex_norm2: "norm_diff [[1]] [[1]] = 0"
  by (simp add: norm_diff_def)

lemma ex_cur_u: "cur_u ex_pass1 = [[1]]" "cur_u ex_pass2 = [[1]]"
  by (simp_all add: ex_pass1_def ex_pass2_def)

lemma ex_solve:
  "solve_to_convergence ex_ctrl [0] float64 [[0], [0]] [[0]] (1 / 1000) 5 = Inr ex_pass2"
proof -
  have 3: "stc_loop [0] (1 / 1000) 5 (Suc (Suc 0)) [[1]] ex_pass2 = Inr ex_pass2"
    by (subst stc_loop.simps) (simp add: ex_cur_u ex_norm2)
  have 2: "stc_loop [0] (1 / 1000) 5 (Suc 0) [[0]] ex_pass1 = Inr ex_pass2"
    by (subst stc_loop.simps) (simp add: ex_cur_u ex_norm1 ex_iteration2 3)
  show ?thesis
    unfolding solve_to_convergence_def
    by (subst stc_loop.simps) (simp add: ex_iteration1 2)
qed

theorem solve_to_convergence_iterations_witness:
  "(1::nat) \<le> 5 \<and>
   solve_to_convergence ex_ctrl [0] float64 [[0], [0]] [[0]] (1 / 1000) 5 = Inr ex_pass2 \<and>
   length (comp_time ex_pass2) = length (comp_time ex_ctrl) + 2 \<and>
   stc_run [0] 2 (ex_ctrl\<lparr>cur_z := [[0], [0]], cur_z_dtype := float64, cur_u := [[0]]\<rparr>) = Inr ex_pass2 \<and>
   u_change [0] 1 (ex_ctrl\<lparr>cur_z := [[0], [0]], cur_z_dtype := float64, cur_u := [[0]]\<rparr>) = 1 \<and>
   u_change [0] 2 (ex_ctrl\<lparr>cur_z := [[0], [0]], cur_z_dtype := float64, cur_u := [[0]]\<rparr>) = 0"
proof -
  have h1: "(1::nat) \<le> 5" by simp
  have run2: "stc_run [0] 2 (ex_ctrl\<lparr>cur_z := [[0], [0]], cur_z_dtype := float64, cur_u := [[0]]\<rparr>) = Inr ex_pass2"
    by (simp add: numeral_2_eq_2 ex_iteration1 ex_iteration2)
  have c1: "u_change [0] 1 (ex_ctrl\<lparr>cur_z := [[0], [0]], cur_z_dtype := float64, cur_u := [[0]]\<rparr>) = 1"
    by (simp add: u_change_def ex_iteration1 ex_cur_u ex_norm1)
  have c2: "u_change [0] 2 (ex_ctrl\<lparr>cur_z := [[0], [0]], cur_z_dtype := float64, cur_u := [[0]]\<rparr>) = 0"
    by (simp add: u_change_def numeral_2_eq_2 ex_iteration1 ex_iteration2 ex_cur_u ex_norm2)
  have ct: "length (comp_time ex_pass2) = length (comp_time ex_ctrl) + 2"
    by (simp add: ex_pass2_def ex_pass1_def ex_ctrl_def ex_mpc_def)
  from solve_to_convergence_iterations[OF h1 ex_solve] h1 ex_solve run2 c1 c2 ct
  show ?thesis by simp
qed

text \<open>
  C3 as stated fails: with \<open>max_iter = 2\<close> the call makes two passes, not fewer than
  \<open>max_iter\<close>, although the second pass changes the control trajectory by \<open>0 \<le> eps\<close>: the
  test of the change is made only before a further pass, which the budget then forbids.
\<close>

lemma ex_solve_budget:
  "solve_to_convergence ex_ctrl [0] float64 [[0], [0]] [[0]] (1 / 1000) 2 = Inr ex_pass2"
proof -
  have 3: "stc_loop [0] (1 / 1000) 2 (Suc (Suc 0)) [[1]] ex_pass2 = Inr ex_pass2"
    by (subst stc_loop.simps) simp
  have 2: "stc_loop [0] (1 / 1000) 2 (Suc 0) [[0]] ex_pass1 = Inr ex_pass2"
    by (subst stc_loop.simps) (simp add: ex_cur_u ex_norm1 ex_iteration2 3)
  show ?thesis
    unfolding solve_to_convergence_def
    by (subst stc_loop.simps) (simp add: ex_iteration1 2)
qed

theorem solve_to_convergence_budget_counterexample:
  "solve_to_convergence ex_ctrl [0] float64 [[0], [0]] [[0]] (1 / 1000) 2 = Inr ex_pass2 \<and>
   length (comp_time ex_pass2) = length (comp_time ex_ctrl) + 2 \<and>
   u_change [0] 2 (ex_ctrl\<lparr>cur_z := [[0], [0]], cur_z_dtype := float64, cur_u := [[0]]\<rparr>) = 0 \<and>
   (0 :: real) \<le> 1 / 1000 \<and> \<not> (2 :: nat) < 2"
proof -
  have c2: "u_change [0] 2 (ex_ctrl\<lparr>cur_z := [[0], [0]], cur_z_dtype := float64, cur_u := [[0]]\<rparr>) = 0"
    by (simp add: u_change_def numeral_2_eq_2 ex_iteration1 ex_iteration2 ex_cur_u ex_norm2)
  have ct: "length (comp_time ex_pass2) = length (comp_time ex_ctrl) + 2"
    by (simp add: ex_pass2_def ex_pass1_def ex_ctrl_def ex_mpc_def)
  from ex_solve_budget c2 ct show ?thesis by simp
qed

lemma ex_warm_iteration: "stc_iteration ex_warm [1] = Inr ex_warm_next"
  by (simp add: ex_warm_next_def ex_warm_def ex_ctrl_def ex_mpc_def mpc_defs array_defs Let_def
        lineq_x_dtype_def uineq_x_dtype_def result_type_def astype_def)

theorem stc_iteration_adds_step_witness:
  "stc_iteration ex_warm [1] = Inr ex_warm_next \<and>
   cur_z ex_warm = [[2], [3]] \<and> cur_u ex_warm = [[1]] \<and>
   res_x ex_warm_next = [1 / 2, 1 / 4, 1] \<and>
   cur_z ex_warm_next = [[2 + 1 / 2], [3 + 1 / 4]] \<and> cur_u ex_warm_next = [[1 + 1]]"
proof -
  have r: "cur_z ex_warm = [[2], [3]]" "cur_u ex_warm = [[1]]"
    "res_x ex_warm_next = [1 / 2, 1 / 4, 1]"
    "cur_z ex_warm_next = [[2 + 1 / 2], [3 + 1 / 4]]" "cur_u ex_warm_next = [[1 + 1]]"
    by (simp_all add: ex_warm_next_def ex_warm_def)
  from stc_iteration_adds_step[OF ex_warm_iteration] ex_warm_iteration r show ?thesis by simp
qed

subsection \<open>Constraint vectors\<close>









lemma is_matrixD:
  assumes "is_matrix r c M"
  shows "length M = r" and "\<And>row. row \<in> set M \<Longrightarrow> length row = c"
    and "\<And>i. i < r \<Longrightarrow> length (M ! i) = c"
  using assms by (auto simp: is_matrix_def list_all_iff)




















text \<open>
  Into integer arrays the store truncates: with integer \<open>xmin\<close>, \<open>xmax\<close>, \<open>C\<close> and guess and
  the reference \<open>xr = [1/2]\<close>, the final-stage bounds for \<open>z_init[N] = [2]\<close> are stored as
  \<open>-1\<close>, where \<open>xr - C z_init[N] = -3/2\<close>.
\<close>

lemma terminal_store_integer_arrays:
  "construct_constraint_vecs ex_mpc_integer [3] int64 [[1], [2]] [[1]] [[7]] =
     Inr (ex_mpc_integer\<lparr>osqp_l := [- 2, - 7, - 2, - 11, - 1],
                           osqp_u := [- 2, - 7, 0, 9, - 1]\<rparr>)"
  by (simp add: construct_constraint_vecs_def ex_mpc_integer_def ex_mpc_def array_defs Let_def
        lineq_x_dtype_def uineq_x_dtype_def result_type_def astype_def trunc_toward_zero_def)

section \<open>Properties of the bilinear feedback-linearizing MPC\<close>

text \<open>
  C9. On a constructed controller whose parameter update succeeds, \<open>eval\<close> solves the
  auxiliary QP first. When the status is not \<^verbatim>\<open>'optimal'\<close> the call ends with the
  assertion error, whatever the linear solver would do, so a returned control implies an
  optimal status. When the status is \<^verbatim>\<open>'optimal'\<close>, the result is that of the linear
  solve of \<open>C F act(z, t)\<close>, with \<open>z\<close> the lift of the current state, against
  \<open>C (zd_ddot - F F zd + nu)\<close>, where \<open>nu\<close> is read from the QP's solution.
\<close>

theorem bmpc_eval_asserts_then_recovers:
  assumes "mpc_prob c = Some q"
    and "bmpc_set_params c x t = Inr ps"
    and "cvx_solve c q ps = (status, vars, q')"
  shows "(status \<noteq> ''optimal'' \<longrightarrow> bmpc_eval c x t = Inl AssertionError) \<and>
         (\<forall>u c'. bmpc_eval c x t = Inr (u, c') \<longrightarrow> status = ''optimal'') \<and>
         (status = ''optimal'' \<longrightarrow>
            (\<forall>CF M FF FFzd d w b.
               1 < length vars \<and> has_col (vars ! 1) 0 \<and>
               mat_mul (dyn_Cx c) (dyn_F c) = Inr CF \<and>
               mat_mul CF (dyn_act c (phi_fun c x) t) = Inr M \<and>
               mat_mul (dyn_F c) (dyn_F c) = Inr FF \<and>
               mat_vec FF (phi_fun c (bmpc_set_pt c)) = Inr FFzd \<and>
               vsub (replicate (bmpc_n_lift c) 0) FFzd = Inr d \<and>
               vadd d (col (vars ! 1) 0) = Inr w \<and>
               mat_vec (dyn_Cx c) w = Inr b \<longrightarrow>
               bmpc_eval c x t =
                 (case linalg_solve c M b of
                    Inl e \<Rightarrow> Inl e
                  | Inr u \<Rightarrow> Inr (u, c\<lparr>mpc_prob := Some q', bmpc_param_values := Some ps,
                                          bmpc_u_prev := u\<rparr>))))"
proof (intro conjI impI allI)
  assume "status \<noteq> ''optimal''"
  then show "bmpc_eval c x t = Inl AssertionError"
    using assms by (simp add: bmpc_eval_def err_bind_def)
next
  fix u c' assume r: "bmpc_eval c x t = Inr (u, c')"
  show "status = ''optimal''"
  proof (rule ccontr)
    assume "status \<noteq> ''optimal''"
    then have "bmpc_eval c x t = Inl AssertionError"
      using assms by (simp add: bmpc_eval_def err_bind_def)
    with r show False by simp
  qed
next
  fix CF M FF FFzd d w b
  assume opt: "status = ''optimal''"
    and H: "1 < length vars \<and> has_col (vars ! 1) 0 \<and>
               mat_mul (dyn_Cx c) (dyn_F c) = Inr CF \<and>
               mat_mul CF (dyn_act c (phi_fun c x) t) = Inr M \<and>
               mat_mul (dyn_F c) (dyn_F c) = Inr FF \<and>
               mat_vec FF (phi_fun c (bmpc_set_pt c)) = Inr FFzd \<and>
               vsub (replicate (bmpc_n_lift c) 0) FFzd = Inr d \<and>
               vadd d (col (vars ! 1) 0) = Inr w \<and>
               mat_vec (dyn_Cx c) w = Inr b"
  then show "bmpc_eval c x t =
                 (case linalg_solve c M b of
                    Inl e \<Rightarrow> Inl e
                  | Inr u \<Rightarrow> Inr (u, c\<lparr>mpc_prob := Some q', bmpc_param_values := Some ps,
                                          bmpc_u_prev := u\<rparr>))"
    using assms by (simp add: bmpc_eval_def err_bind_def Let_def)
qed

theorem bmpc_eval_asserts_then_recovers_witness:
  "mpc_prob (ex_bmpc ''optimal'') = Some 0 \<and>
   bmpc_set_params (ex_bmpc ''optimal'') [3, 1] 0 =
     Inr \<lparr>eta_z_init_value = [2, 1, 1 / 2, 0], eta_z_d_value = [1, 0, 0, 0], zd_value = [1, 0],
          zd_dot_value = [0, 0], zd_ddot_value = [0, 0]\<rparr> \<and>
   map_sum id fst (bmpc_eval (ex_bmpc ''optimal'') [3, 1] 0) = Inr [3 / 2] \<and>
   bmpc_eval (ex_bmpc ''infeasible'') [3, 1] 0 = Inl AssertionError"
proof -
  let ?ps = "\<lparr>eta_z_init_value = [2, 1, 1 / 2, 0], eta_z_d_value = [1, 0, 0, 0],
          zd_value = [1, 0], zd_dot_value = [0, 0], zd_ddot_value = [0, 0]\<rparr>"
  let ?vars = "[[[0, 0], [0, 0], [0, 0], [0, 0]], [[4], [6 :: real]]]"
  have p: "mpc_prob (ex_bmpc st) = Some 0" for st by (simp add: ex_bmpc_def)
  have ps: "bmpc_set_params (ex_bmpc st) [3, 1] 0 = Inr ?ps" for st
    by (simp add: bmpc_set_params_def ex_bmpc_def vsub_def set_param_def err_bind_def Let_def
          concatenate_sq_def zero_dim_def numeral_2_eq_2)
  have sol: "cvx_solve (ex_bmpc st) 0 ?ps = (st, ?vars, Suc 0)" for st
    by (simp add: ex_bmpc_def)
  have bad: "bmpc_eval (ex_bmpc ''infeasible'') [3, 1] 0 = Inl AssertionError"
    using bmpc_eval_asserts_then_recovers[OF p ps sol, of "''infeasible''"] by simp
  have good: "map_sum id fst (bmpc_eval (ex_bmpc ''optimal'') [3, 1] 0) = Inr [3 / 2]"
    by (simp add: bmpc_eval_def ps p err_bind_def)
       (simp add: ex_bmpc_def err_bind_def has_col_def col_def mat_mul_def
          mat_vec_def np_cols_def width_def dot_def vsub_def vadd_def Let_def numeral_2_eq_2)
  from p ps good bad show ?thesis by simp
qed

text \<open>
  With a single lifted coordinate the squeezed reference is 0-dimensional, and the update
  of the parameters raises ValueError before the QP is solved.
\<close>

lemma bmpc_set_params_single:
  assumes "length (phi_fun c (bmpc_set_pt c)) = 1"
  shows "bmpc_set_params c x t = Inl ValueError"
  using assms unfolding bmpc_set_params_def Let_def
  by (auto simp: err_bind_def vsub_def set_param_def concatenate_sq_def zero_dim_def
           split: sum.splits if_splits)

lemma bmpc_eval_single:
  assumes "mpc_prob c = Some q" and "length (phi_fun c (bmpc_set_pt c)) = 1"
  shows "bmpc_eval c x t = Inl ValueError"
  by (simp add: bmpc_eval_def assms(1) bmpc_set_params_single[OF assms(2)] err_bind_def)

lemma ex_bmpc_single_raises: "bmpc_eval ex_bmpc_single [1] 0 = Inl ValueError"
  by (rule bmpc_eval_single) (simp_all add: ex_bmpc_single_def)

section \<open>The flat value array: in-place update against rebuild\<close>

text \<open>The positions at which consecutive segments of the given lengths start.\<close>

fun seg_starts :: "nat \<Rightarrow> nat list \<Rightarrow> nat list" where
  "seg_starts st [] = []"
| "seg_starts st (l # ls) = st # seg_starts (st + l) ls"

definition upd_pairs :: "vec \<Rightarrow> (nat \<times> real) list \<Rightarrow> vec" where
  "upd_pairs data ps = foldl (\<lambda>d (i, v). d[i := v]) data ps"

lemma upd_pairs_append: "upd_pairs d (ps @ qs) = upd_pairs (upd_pairs d ps) qs"
  by (simp add: upd_pairs_def)

lemma upd_range:
  "length m = length m' \<Longrightarrow>
   upd_pairs (U @ m @ V) (zip [length U..<length U + length m] m') = U @ m' @ V"
proof (induction m arbitrary: U m')
  case Nil
  then show ?case by (simp add: upd_pairs_def)
next
  case (Cons x xs)
  then obtain y ys where m': "m' = y # ys" and l: "length xs = length ys"
    by (cases m') auto
  have lt: "length U < length U + length (x # xs)" by simp
  have e1: "Suc (length U) = length (U @ [y])" by simp
  have e2: "length U + length (x # xs) = length (U @ [y]) + length xs" by simp
  have r: "[length U..<length U + length (x # xs)] =
           length U # [length (U @ [y])..<length (U @ [y]) + length xs]"
    using upt_conv_Cons[OF lt] unfolding e1 e2 .
  have "upd_pairs (U @ (x # xs) @ V) (zip [length U..<length U + length (x # xs)] m') =
        upd_pairs ((U @ [y]) @ xs @ V) (zip [length (U @ [y])..<length (U @ [y]) + length xs] ys)"
    unfolding r m' by (simp add: upd_pairs_def)
  also have "\<dots> = (U @ [y]) @ ys @ V" by (rule Cons.IH[OF l])
  finally show ?case by (simp add: m')
qed

text \<open>A value array made of segments \<open>pre @ mid @ post\<close>; the recorded positions are those
  of the \<open>mid\<close> parts, all of length \<open>k\<close>, behind \<open>pre\<close> parts of length \<open>a\<close>.\<close>

definition seg_flat :: "(vec \<times> vec \<times> vec) list \<Rightarrow> vec" where
  "seg_flat segs = concat (map (\<lambda>(p, m, q). p @ m @ q) segs)"

definition seg_len :: "vec \<times> vec \<times> vec \<Rightarrow> nat" where
  "seg_len s = (case s of (p, m, q) \<Rightarrow> length p + length m + length q)"

definition mid_inds :: "nat \<Rightarrow> nat \<Rightarrow> (vec \<times> vec \<times> vec) list \<Rightarrow> nat list" where
  "mid_inds st k segs = concat (map (\<lambda>b. [b..<b + k]) (seg_starts st (map seg_len segs)))"

definition same_frame :: "nat \<Rightarrow> nat \<Rightarrow> vec \<times> vec \<times> vec \<Rightarrow> vec \<times> vec \<times> vec \<Rightarrow> bool" where
  "same_frame a k s0 s1 =
     (case s0 of (p, m, q) \<Rightarrow> case s1 of (p', m', q') \<Rightarrow>
        p' = p \<and> q' = q \<and> length p = a \<and> length m = k \<and> length m' = k)"

lemma scatter_segments:
  "list_all2 (same_frame a k) segs0 segs1 \<Longrightarrow>
   upd_pairs (X @ seg_flat segs0 @ Y)
     (zip (mid_inds (length X + a) k segs0) (concat (map (\<lambda>(p, m, q). m) segs1))) =
   X @ seg_flat segs1 @ Y"
proof (induction segs0 segs1 arbitrary: X rule: list_all2_induct)
  case Nil
  show ?case by (simp add: seg_flat_def mid_inds_def upd_pairs_def)
next
  case (Cons s0 segs0 s1 segs1)
  obtain p m q where s0: "s0 = (p, m, q)" by (cases s0)
  obtain p' m' q' where s1: "s1 = (p', m', q')" by (cases s1)
  from Cons.hyps(1) have f: "p' = p" "q' = q" "length p = a" "length m = k" "length m' = k"
    by (simp_all add: same_frame_def s0 s1)
  let ?rest0 = "seg_flat segs0" and ?rest1 = "seg_flat segs1"
  let ?I = "mid_inds (length X + a + seg_len s0) k segs0"
  let ?M = "concat (map (\<lambda>(p, m, q). m) segs1)"
  have inds: "mid_inds (length X + a) k (s0 # segs0) = [length X + a..<length X + a + k] @ ?I"
    by (simp add: mid_inds_def)
  have z: "zip (mid_inds (length X + a) k (s0 # segs0)) (concat (map (\<lambda>(p, m, q). m) (s1 # segs1))) =
           zip [length X + a..<length X + a + k] m' @ zip ?I ?M"
    unfolding inds by (simp add: s1 f)
  have flat0: "X @ seg_flat (s0 # segs0) @ Y = (X @ p) @ m @ (q @ ?rest0 @ Y)"
    by (simp add: seg_flat_def s0)
  have step1: "upd_pairs ((X @ p) @ m @ (q @ ?rest0 @ Y))
                 (zip [length X + a..<length X + a + k] m') = (X @ p) @ m' @ (q @ ?rest0 @ Y)"
    using upd_range[of m m' "X @ p" "q @ ?rest0 @ Y"] f by simp
  have lenX': "length (X @ p @ m' @ q) + a = length X + a + seg_len s0"
    by (simp add: seg_len_def s0 f)
  have step2: "upd_pairs ((X @ p @ m' @ q) @ ?rest0 @ Y) (zip ?I ?M) = (X @ p @ m' @ q) @ ?rest1 @ Y"
    using Cons.IH[of "X @ p @ m' @ q"] unfolding lenX' .
  have "upd_pairs (X @ seg_flat (s0 # segs0) @ Y)
          (zip (mid_inds (length X + a) k (s0 # segs0)) (concat (map (\<lambda>(p, m, q). m) (s1 # segs1)))) =
        upd_pairs ((X @ p @ m' @ q) @ ?rest0 @ Y) (zip ?I ?M)"
    unfolding z upd_pairs_append flat0 step1 by simp
  also have "\<dots> = (X @ p @ m' @ q) @ ?rest1 @ Y" by (rule step2)
  also have "\<dots> = X @ seg_flat (s1 # segs1) @ Y"
    by (simp add: seg_flat_def s1 f)
  finally show ?case .
qed

lemma seg_flat_length: "length (seg_flat segs) = sum_list (map seg_len segs)"
  by (induction segs) (auto simp: seg_flat_def seg_len_def)

lemma mid_inds_length:
  "length (mid_inds st k segs) = length segs * k"
  unfolding mid_inds_def by (induction segs arbitrary: st) simp_all

lemma mid_inds_bound:
  "list_all2 (same_frame a k) segs0 segs1 \<Longrightarrow> i \<in> set (mid_inds (b + a) k segs0) \<Longrightarrow>
   i < b + sum_list (map seg_len segs0)"
proof (induction segs0 segs1 arbitrary: b rule: list_all2_induct)
  case Nil
  then show ?case by (simp add: mid_inds_def)
next
  case (Cons s0 segs0 s1 segs1)
  obtain p m q where s0: "s0 = (p, m, q)" by (cases s0)
  obtain p' m' q' where s1: "s1 = (p', m', q')" by (cases s1)
  from Cons.hyps(1) have f: "length p = a" "length m = k"
    by (simp_all add: same_frame_def s0 s1)
  have sl: "seg_len s0 = a + k + length q" by (simp add: seg_len_def s0 f)
  from Cons.prems have "i \<in> {b + a..<b + a + k} \<or> i \<in> set (mid_inds (b + a + seg_len s0) k segs0)"
    by (auto simp: mid_inds_def)
  then show ?case
  proof
    assume "i \<in> {b + a..<b + a + k}"
    then show ?thesis by (simp add: sl)
  next
    assume "i \<in> set (mid_inds (b + a + seg_len s0) k segs0)"
    then have "i \<in> set (mid_inds ((b + seg_len s0) + a) k segs0)" by (simp add: add.commute add.left_commute)
    from Cons.IH[OF this] show ?thesis by (simp add: add.assoc)
  qed
qed


definition state_seg :: "matrix list \<Rightarrow> vec list \<Rightarrow> nat \<times> nat \<Rightarrow> vec \<times> vec \<times> vec" where
  "state_seg A_lst Cd p = (case p of (t, i) \<Rightarrow> ([- 1], col (A_lst ! t) i, Cd ! i))"

definition input_seg :: "matrix list \<Rightarrow> nat \<times> nat \<Rightarrow> vec \<times> vec \<times> vec" where
  "input_seg B_lst p = (case p of (t, i) \<Rightarrow> ([], col (B_lst ! t) i, [1]))"

lemma state_loop_closed:
  "foldl (state_round A_lst Cd nx) (d, I, st) ps =
     (d @ map (\<lambda>p. (case state_seg A_lst Cd p of (a, m, q) \<Rightarrow> a @ m @ q)) ps,
      I @ map (\<lambda>b. [b..<b + nx]) (seg_starts st (map (\<lambda>p. nx + 1 + length (Cd ! snd p)) ps)),
      st + sum_list (map (\<lambda>p. nx + 1 + length (Cd ! snd p)) ps))"
proof (induction ps arbitrary: d I st)
  case Nil
  show ?case by simp
next
  case (Cons p ps)
  obtain t i where p: "p = (t, i)" by (cases p)
  have step: "state_round A_lst Cd nx (d, I, st) p =
                (d @ [- 1 # col (A_lst ! t) i @ Cd ! i], I @ [[st..<st + nx]],
                 st + nx + 1 + length (Cd ! i))"
    by (simp add: state_round_def p)
  show ?case
    unfolding foldl.simps step Cons.IH
    by (simp add: p state_seg_def add.assoc)
qed

lemma input_loop_closed:
  "foldl (input_round B_lst nx) (d, I, st) ps =
     (d @ map (\<lambda>p. (case input_seg B_lst p of (a, m, q) \<Rightarrow> a @ m @ q)) ps,
      I @ map (\<lambda>b. [b..<b + nx]) (seg_starts st (map (\<lambda>p. nx + 1) ps)),
      st + sum_list (map (\<lambda>p. nx + 1) ps))"
proof (induction ps arbitrary: d I st)
  case Nil
  show ?case by simp
next
  case (Cons p ps)
  obtain t i where p: "p = (t, i)" by (cases p)
  have step: "input_round B_lst nx (d, I, st) p =
                (d @ [col (B_lst ! t) i @ [1]], I @ [[st..<st + nx]], st + nx + 1)"
    by (simp add: input_round_def p)
  show ?case
    unfolding foldl.simps step Cons.IH
    by (simp add: p input_seg_def add.assoc)
qed

lemma blocks_shapedD:
  assumes "blocks_shaped N r c Ms"
  shows "length Ms = N" and "\<And>t. t < N \<Longrightarrow> is_matrix r c (Ms ! t)"
  using assms by (auto simp: blocks_shaped_def list_all_length)

lemma col_length: "length (col M i) = length M"
  by (simp add: col_def)

lemma is_matrix_has_col: "is_matrix r c M \<Longrightarrow> i < c \<Longrightarrow> has_col M i"
  by (auto simp: is_matrix_def has_col_def list_all_iff)

lemma blocks_cols_in_range:
  assumes "blocks_shaped N r c Ms"
  shows "cols_in_range N c Ms"
proof -
  have "has_col (Ms ! t) i" if "t < N" "i < c" for t i
    using is_matrix_has_col[OF blocks_shapedD(2)[OF assms that(1)] that(2)] .
  then have "list_all (\<lambda>t. list_all (\<lambda>i. has_col (Ms ! t) i) [0..<c]) [0..<N]"
    by (simp add: list_all_iff)
  then show ?thesis
    using blocks_shapedD(1)[OF assms] by (simp add: cols_in_range_def)
qed

lemma list_all2_map_same:
  "(\<And>x. x \<in> set xs \<Longrightarrow> P (f x) (g x)) \<Longrightarrow> list_all2 P (map f xs) (map g xs)"
  by (induction xs) auto

lemma in_product_upt:
  "p \<in> set (List.product [0..<N] [0..<k]) \<longleftrightarrow> fst p < N \<and> snd p < k"
  by (cases p) auto

lemma state_seg_frame:
  assumes "blocks_shaped N nx nx A0" "blocks_shaped N nx nx A1"
  shows "list_all2 (same_frame 1 nx)
           (map (state_seg A0 Cd) (List.product [0..<N] [0..<nx]))
           (map (state_seg A1 Cd) (List.product [0..<N] [0..<nx]))"
proof -
  have "same_frame 1 nx (state_seg A0 Cd p) (state_seg A1 Cd p)"
    if "p \<in> set (List.product [0..<N] [0..<nx])" for p
  proof -
    obtain t i where p: "p = (t, i)" by (cases p)
    with that have t: "t < N" by simp
    have "length (A0 ! t) = nx" "length (A1 ! t) = nx"
      using blocks_shapedD(2)[OF assms(1) t] blocks_shapedD(2)[OF assms(2) t]
      by (simp_all add: is_matrix_def)
    then show ?thesis by (simp add: same_frame_def state_seg_def p col_length)
  qed
  then show ?thesis
    by (rule list_all2_map_same)
qed

lemma input_seg_frame:
  assumes "blocks_shaped N nx nu B0" "blocks_shaped N nx nu B1"
  shows "list_all2 (same_frame 0 nx)
           (map (input_seg B0) (List.product [0..<N] [0..<nu]))
           (map (input_seg B1) (List.product [0..<N] [0..<nu]))"
proof -
  have "same_frame 0 nx (input_seg B0 p) (input_seg B1 p)"
    if "p \<in> set (List.product [0..<N] [0..<nu])" for p
  proof -
    obtain t i where p: "p = (t, i)" by (cases p)
    with that have t: "t < N" by simp
    have "length (B0 ! t) = nx" "length (B1 ! t) = nx"
      using blocks_shapedD(2)[OF assms(1) t] blocks_shapedD(2)[OF assms(2) t]
      by (simp_all add: is_matrix_def)
    then show ?thesis by (simp add: same_frame_def input_seg_def p col_length)
  qed
  then show ?thesis
    by (rule list_all2_map_same)
qed


lemma sum_list_indicator:
  "sum_list (map (\<lambda>i. if P i then 1 else 0) xs) = length (filter P xs)"
  by (induction xs) simp_all

lemma nnz_by_columns:
  assumes "\<forall>r \<in> set C. length r = nx"
  shows "length (nonzero_cols C) =
         sum_list (map (\<lambda>i. length (filter (\<lambda>v. v \<noteq> 0) (col C i))) [0..<nx])"
  using assms
proof (induction C)
  case Nil
  show ?case by (simp add: nonzero_cols_def col_def)
next
  case (Cons r C)
  have lr: "length r = nx" using Cons.prems by simp
  have IH: "length (nonzero_cols C) =
            sum_list (map (\<lambda>i. length (filter (\<lambda>v. v \<noteq> 0) (col C i))) [0..<nx])"
    using Cons by simp
  have split: "length (filter (\<lambda>v. v \<noteq> 0) (col (r # C) i)) =
               (if r ! i \<noteq> 0 then 1 else 0) + length (filter (\<lambda>v. v \<noteq> 0) (col C i))" for i
    by (simp add: col_def)
  have "sum_list (map (\<lambda>i. length (filter (\<lambda>v. v \<noteq> 0) (col (r # C) i))) [0..<nx]) =
        sum_list (map (\<lambda>i. if r ! i \<noteq> 0 then 1 else 0) [0..<nx]) +
        sum_list (map (\<lambda>i. length (filter (\<lambda>v. v \<noteq> 0) (col C i))) [0..<nx])"
    unfolding split by (rule sum_list_addf)
  also have "\<dots> = length (filter (\<lambda>j. r ! j \<noteq> 0) [0..<nx]) + length (nonzero_cols C)"
    unfolding IH sum_list_indicator ..
  also have "\<dots> = length (nonzero_cols (r # C))"
    by (simp add: nonzero_cols_def lr)
  finally show ?case by simp
qed

lemma term_block_length:
  assumes "\<forall>r \<in> set C. length r = nx"
  shows "length (concat (map (\<lambda>i. (- 1) # C_data C nx ! i) [0..<nx])) =
         nx + length (nonzero_cols C)"
proof -
  have "length (concat (map (\<lambda>i. (- 1) # C_data C nx ! i) [0..<nx])) =
        sum_list (map (\<lambda>i. 1 + length (C_data C nx ! i)) [0..<nx])"
    by (simp add: length_concat comp_def)
  also have "\<dots> = sum_list (map (\<lambda>i. 1) [0..<nx]) +
                   sum_list (map (\<lambda>i. length (C_data C nx ! i)) [0..<nx])"
    by (rule sum_list_addf)
  also have "sum_list (map (\<lambda>i. length (C_data C nx ! i)) [0..<nx]) =
             sum_list (map (\<lambda>i. length (filter (\<lambda>v. v \<noteq> 0) (col C i))) [0..<nx])"
    by (rule arg_cong[where f = sum_list], rule map_cong) (simp_all add: C_data_def)
  also have "\<dots> = length (nonzero_cols C)"
    by (rule nnz_by_columns[OF assms, symmetric])
  also have "sum_list (map (\<lambda>i. 1) [0..<nx]) = nx"
    by (simp add: sum_list_triv)
  finally show ?thesis .
qed

lemma product_concat:
  "concat (map (\<lambda>p. f (fst p) (snd p)) (List.product xs ys)) =
   concat (map (\<lambda>t. concat (map (f t) ys)) xs)"
  by (induction xs) (simp_all add: comp_def)

lemma map_by_index: "map g xs = map (\<lambda>t. g (xs ! t)) [0..<length xs]"
  by (rule nth_equalityI) simp_all

lemma hstack_flatten_F_blocks:
  assumes "blocks_shaped N r c Ms" and "0 < N"
  shows "hstack_flatten_F Ms =
         Inr (concat (map (\<lambda>p. col (Ms ! fst p) (snd p)) (List.product [0..<N] [0..<c])))"
proof -
  note D = blocks_shapedD[OF assms(1)]
  have ne: "Ms \<noteq> []" using D(1) assms(2) by auto
  have rows: "list_all (\<lambda>M. length M = length (hd Ms)) Ms"
  proof -
    have "length M = r" if "M \<in> set Ms" for M
      using that assms(1) by (auto simp: blocks_shaped_def list_all_iff is_matrix_def)
    then show ?thesis using ne by (simp add: list_all_iff)
  qed
  have cols: "concat (np_cols M) = concat (map (col M) [0..<c])" if "is_matrix r c M" for M
  proof (cases M)
    case Nil
    then show ?thesis by (simp add: np_cols_def width_def col_def)
  next
    case (Cons row M')
    with that have "width M = c" by (simp add: width_def is_matrix_def)
    then show ?thesis by (simp add: np_cols_def)
  qed
  have "map (\<lambda>M. concat (np_cols M)) Ms = map (\<lambda>M. concat (map (col M) [0..<c])) Ms"
    by (rule map_cong) (use assms(1) in \<open>auto simp: blocks_shaped_def list_all_iff intro: cols\<close>)
  also have "\<dots> = map (\<lambda>t. concat (map (col (Ms ! t)) [0..<c])) [0..<N]"
    unfolding D(1)[symmetric] by (rule map_by_index)
  finally have "concat (map (\<lambda>M. concat (np_cols M)) Ms) =
                concat (map (\<lambda>t. concat (map (col (Ms ! t)) [0..<c])) [0..<N])"
    by simp
  also have "\<dots> = concat (map (\<lambda>p. col (Ms ! fst p) (snd p)) (List.product [0..<N] [0..<c]))"
    by (rule product_concat[symmetric])
  finally show ?thesis
    using ne rows by (simp add: hstack_flatten_F_def)
qed


lemma state_seg_lens:
  assumes "blocks_shaped N nx nx A_lst"
  shows "map seg_len (map (state_seg A_lst Cd) (List.product [0..<N] [0..<nx])) =
         map (\<lambda>p. nx + 1 + length (Cd ! snd p)) (List.product [0..<N] [0..<nx])"
proof -
  have "seg_len (state_seg A_lst Cd p) = nx + 1 + length (Cd ! snd p)"
    if "p \<in> set (List.product [0..<N] [0..<nx])" for p
  proof -
    obtain t i where p: "p = (t, i)" by (cases p)
    with that have t: "t < N" by simp
    have "length (A_lst ! t) = nx"
      using blocks_shapedD(2)[OF assms t] by (simp add: is_matrix_def)
    then show ?thesis by (simp add: seg_len_def state_seg_def p col_length)
  qed
  then show ?thesis by simp
qed

lemma input_seg_lens:
  assumes "blocks_shaped N nx nu B_lst"
  shows "map seg_len (map (input_seg B_lst) (List.product [0..<N] [0..<nu])) =
         map (\<lambda>p. nx + 1) (List.product [0..<N] [0..<nu])"
proof -
  have "seg_len (input_seg B_lst p) = nx + 1"
    if "p \<in> set (List.product [0..<N] [0..<nu])" for p
  proof -
    obtain t i where p: "p = (t, i)" by (cases p)
    with that have t: "t < N" by simp
    have "length (B_lst ! t) = nx"
      using blocks_shapedD(2)[OF assms t] by (simp add: is_matrix_def)
    then show ?thesis by (simp add: seg_len_def input_seg_def p col_length)
  qed
  then show ?thesis by simp
qed

lemma construct_constraint_matrix_data_closed:
  fixes s :: "'p nmpc"
  assumes C: "is_matrix (mpc_ns s) (mpc_nx s) (mpc_C s)"
    and A: "blocks_shaped (mpc_N s) (mpc_nx s) (mpc_nx s) A_lst"
    and B: "blocks_shaped (mpc_N s) (mpc_nx s) (mpc_nu s) B_lst"
  defines "Cd \<equiv> C_data (mpc_C s) (mpc_nx s)"
  defines "segsA \<equiv> map (state_seg A_lst Cd) (List.product [0..<mpc_N s] [0..<mpc_nx s])"
  defines "segsB \<equiv> map (input_seg B_lst) (List.product [0..<mpc_N s] [0..<mpc_nu s])"
  defines "T \<equiv> concat (map (\<lambda>i. (- 1) # Cd ! i) [0..<mpc_nx s])"
  shows "construct_constraint_matrix_data s A_lst B_lst =
     Inr (s\<lparr>osqp_A_data := Some (seg_flat segsA @ T @ seg_flat segsB),
            osqp_A_data_A_inds := mid_inds 1 (mpc_nx s) segsA,
            osqp_A_data_B_inds := mid_inds (length (seg_flat segsA @ T)) (mpc_nx s) segsB\<rparr>)"
proof -
  let ?N = "mpc_N s" and ?nx = "mpc_nx s" and ?nu = "mpc_nu s"
  let ?psA = "List.product [0..<?N] [0..<?nx]" and ?psB = "List.product [0..<?N] [0..<?nu]"
  have Crows: "\<forall>r \<in> set (mpc_C s). length r = ?nx"
    using is_matrixD(2)[OF C] by blast
  have g1: "list_all (has_col (mpc_C s)) [0..<?nx]"
    using is_matrix_has_col[OF C] by (simp add: list_all_iff)
  note g2 = blocks_cols_in_range[OF A] and g3 = blocks_cols_in_range[OF B]
  have flatA: "concat (map (\<lambda>p. case state_seg A_lst Cd p of (a, m, q) \<Rightarrow> a @ m @ q) ?psA) =
               seg_flat segsA"
    by (simp add: seg_flat_def segsA_def comp_def)
  have flatB: "concat (map (\<lambda>p. case input_seg B_lst p of (a, m, q) \<Rightarrow> a @ m @ q) ?psB) =
               seg_flat segsB"
    by (simp add: seg_flat_def segsB_def comp_def)
  have indsA: "concat (map (\<lambda>b. [b..<b + ?nx])
                  (seg_starts 1 (map (\<lambda>p. ?nx + 1 + length (Cd ! snd p)) ?psA))) =
               mid_inds 1 ?nx segsA"
    unfolding mid_inds_def segsA_def state_seg_lens[OF A] ..
  have lenA: "sum_list (map (\<lambda>p. ?nx + 1 + length (Cd ! snd p)) ?psA) = length (seg_flat segsA)"
    unfolding seg_flat_length segsA_def state_seg_lens[OF A] ..
  have lenT: "length T = ?nx + length (nonzero_cols (mpc_C s))"
    unfolding T_def Cd_def by (rule term_block_length[OF Crows])
  have startB: "1 + sum_list (map (\<lambda>p. ?nx + 1 + length (Cd ! snd p)) ?psA) + ?nx +
                  length (nonzero_cols (mpc_C s)) - 1 = length (seg_flat segsA @ T)"
    unfolding lenA length_append lenT by simp
  have indsB: "concat (map (\<lambda>b. [b..<b + ?nx])
                  (seg_starts (length (seg_flat segsA @ T)) (map (\<lambda>p. ?nx + 1) ?psB))) =
               mid_inds (length (seg_flat segsA @ T)) ?nx segsB"
    unfolding mid_inds_def segsB_def input_seg_lens[OF B] ..
  have loopA: "foldl (state_round A_lst Cd ?nx) ([], [], 1) ?psA =
     (map (\<lambda>p. (case state_seg A_lst Cd p of (a, m, q) \<Rightarrow> a @ m @ q)) ?psA,
      map (\<lambda>b. [b..<b + ?nx]) (seg_starts 1 (map (\<lambda>p. ?nx + 1 + length (Cd ! snd p)) ?psA)),
      1 + sum_list (map (\<lambda>p. ?nx + 1 + length (Cd ! snd p)) ?psA))"
    using state_loop_closed[of A_lst Cd ?nx "[]" "[]" 1 ?psA] by simp
  show ?thesis
    unfolding construct_constraint_matrix_data_def Let_def Cd_def[symmetric]
    apply (simp only: g1 g2 g3 not_True_eq_False if_False loopA prod.case input_loop_closed startB)
    apply (simp only: concat_append flatA flatB indsA indsB[unfolded T_def] T_def append_Nil
             append_assoc)
    done
qed


lemma assign_at_scatter:
  assumes "length vals = length inds" and "\<forall>i \<in> set inds. i < length data"
  shows "assign_at data inds vals = Inr (upd_pairs data (zip inds vals))"
  using assms by (simp add: assign_at_def upd_pairs_def list_all_iff)

lemma same_frame_mids:
  "list_all2 (same_frame a k) segs0 segs1 \<Longrightarrow>
   length (concat (map (\<lambda>(p, m, q). m) segs1)) = length segs0 * k \<and>
   map seg_len segs1 = map seg_len segs0"
proof (induction segs0 segs1 rule: list_all2_induct)
  case Nil
  show ?case by simp
next
  case (Cons s0 segs0 s1 segs1)
  then show ?case
    by (cases s0, cases s1) (simp add: same_frame_def seg_len_def)
qed

lemma assign_segments:
  assumes fr: "list_all2 (same_frame a k) segs0 segs1"
  shows "assign_at (X @ seg_flat segs0 @ Y) (mid_inds (length X + a) k segs0)
           (concat (map (\<lambda>(p, m, q). m) segs1)) = Inr (X @ seg_flat segs1 @ Y)"
proof -
  have len: "length (concat (map (\<lambda>(p, m, q). m) segs1)) =
             length (mid_inds (length X + a) k segs0)"
    using same_frame_mids[OF fr] by (simp add: mid_inds_length)
  have bnd: "\<forall>i \<in> set (mid_inds (length X + a) k segs0). i < length (X @ seg_flat segs0 @ Y)"
  proof
    fix i assume "i \<in> set (mid_inds (length X + a) k segs0)"
    from mid_inds_bound[OF fr this] show "i < length (X @ seg_flat segs0 @ Y)"
      by (simp add: seg_flat_length)
  qed
  show ?thesis
    unfolding assign_at_scatter[OF len bnd] scatter_segments[OF fr] ..
qed

theorem update_equals_rebuild_data:
  fixes s :: "'p nmpc"
  assumes C: "is_matrix (mpc_ns s) (mpc_nx s) (mpc_C s)" and N: "0 < mpc_N s"
    and A0: "blocks_shaped (mpc_N s) (mpc_nx s) (mpc_nx s) A0"
    and B0: "blocks_shaped (mpc_N s) (mpc_nx s) (mpc_nu s) B0"
    and A1: "blocks_shaped (mpc_N s) (mpc_nx s) (mpc_nx s) A1"
    and B1: "blocks_shaped (mpc_N s) (mpc_nx s) (mpc_nu s) B1"
  shows "\<exists>s0 s1. construct_constraint_matrix_data s A0 B0 = Inr s0 \<and>
                 update_constraint_matrix_data s0 A1 B1 = Inr s1 \<and>
                 construct_constraint_matrix_data s A1 B1 = Inr s1"
proof -
  let ?N = "mpc_N s" and ?nx = "mpc_nx s" and ?nu = "mpc_nu s"
  let ?psA = "List.product [0..<?N] [0..<?nx]" and ?psB = "List.product [0..<?N] [0..<?nu]"
  define Cd where "Cd = C_data (mpc_C s) ?nx"
  define T where "T = concat (map (\<lambda>i. (- 1) # Cd ! i) [0..<?nx])"
  define SA0 where "SA0 = map (state_seg A0 Cd) ?psA"
  define SA1 where "SA1 = map (state_seg A1 Cd) ?psA"
  define SB0 where "SB0 = map (input_seg B0) ?psB"
  define SB1 where "SB1 = map (input_seg B1) ?psB"
  define s0 where "s0 = s\<lparr>osqp_A_data := Some (seg_flat SA0 @ T @ seg_flat SB0),
            osqp_A_data_A_inds := mid_inds 1 ?nx SA0,
            osqp_A_data_B_inds := mid_inds (length (seg_flat SA0 @ T)) ?nx SB0\<rparr>"
  define s1 where "s1 = s\<lparr>osqp_A_data := Some (seg_flat SA1 @ T @ seg_flat SB1),
            osqp_A_data_A_inds := mid_inds 1 ?nx SA1,
            osqp_A_data_B_inds := mid_inds (length (seg_flat SA1 @ T)) ?nx SB1\<rparr>"
  have c0: "construct_constraint_matrix_data s A0 B0 = Inr s0"
    unfolding s0_def SA0_def SB0_def T_def Cd_def
    by (rule construct_constraint_matrix_data_closed[OF C A0 B0])
  have c1: "construct_constraint_matrix_data s A1 B1 = Inr s1"
    unfolding s1_def SA1_def SB1_def T_def Cd_def
    by (rule construct_constraint_matrix_data_closed[OF C A1 B1])
  have frA: "list_all2 (same_frame 1 ?nx) SA0 SA1"
    unfolding SA0_def SA1_def by (rule state_seg_frame[OF A0 A1])
  have frB: "list_all2 (same_frame 0 ?nx) SB0 SB1"
    unfolding SB0_def SB1_def by (rule input_seg_frame[OF B0 B1])
  have lensA: "map seg_len SA1 = map seg_len SA0" using same_frame_mids[OF frA] by simp
  have lensB: "map seg_len SB1 = map seg_len SB0" using same_frame_mids[OF frB] by simp
  have lenFA: "length (seg_flat SA1) = length (seg_flat SA0)"
    by (simp add: seg_flat_length lensA)
  have indsA: "mid_inds 1 ?nx SA1 = mid_inds 1 ?nx SA0"
    by (simp add: mid_inds_def lensA)
  have indsB: "mid_inds (length (seg_flat SA1 @ T)) ?nx SB1 =
               mid_inds (length (seg_flat SA0 @ T)) ?nx SB0"
    by (simp add: mid_inds_def lensB lenFA)
  have avals: "hstack_flatten_F A1 = Inr (concat (map (\<lambda>(p, m, q). m) SA1))"
    unfolding hstack_flatten_F_blocks[OF A1 N] SA1_def
    by (simp add: state_seg_def comp_def case_prod_beta)
  have bvals: "hstack_flatten_F B1 = Inr (concat (map (\<lambda>(p, m, q). m) SB1))"
    unfolding hstack_flatten_F_blocks[OF B1 N] SB1_def
    by (simp add: input_seg_def comp_def case_prod_beta)
  have step1: "assign_at (seg_flat SA0 @ T @ seg_flat SB0) (mid_inds 1 ?nx SA0)
                 (concat (map (\<lambda>(p, m, q). m) SA1)) = Inr (seg_flat SA1 @ T @ seg_flat SB0)"
    using assign_segments[OF frA, of "[]" "T @ seg_flat SB0"] by simp
  have step2: "assign_at (seg_flat SA1 @ T @ seg_flat SB0)
                 (mid_inds (length (seg_flat SA0 @ T)) ?nx SB0)
                 (concat (map (\<lambda>(p, m, q). m) SB1)) = Inr (seg_flat SA1 @ T @ seg_flat SB1)"
    using assign_segments[OF frB, of "seg_flat SA1 @ T" "[]"] by (simp add: lenFA)
  have f: "osqp_A_data s0 = Some (seg_flat SA0 @ T @ seg_flat SB0)"
    "osqp_A_data_A_inds s0 = mid_inds 1 ?nx SA0"
    "osqp_A_data_B_inds s0 = mid_inds (length (seg_flat SA0 @ T)) ?nx SB0"
    by (simp_all add: s0_def)
  have upd: "update_constraint_matrix_data s0 A1 B1 =
             Inr (s0\<lparr>osqp_A_data := Some (seg_flat SA1 @ T @ seg_flat SB1)\<rparr>)"
    unfolding update_constraint_matrix_data_def avals bvals
    by (simp only: err_bind_def f option.case sum.case step1 step2)
  have "s0\<lparr>osqp_A_data := Some (seg_flat SA1 @ T @ seg_flat SB1)\<rparr> = s1"
    unfolding s1_def indsA indsB by (simp add: s0_def)
  with upd have "update_constraint_matrix_data s0 A1 B1 = Inr s1" by simp
  with c0 c1 show ?thesis by blast
qed

end
